theory Spec2Isabelle
  imports Complex_Main "HOL-Library.Sublist"
begin

section \<open>JavaScript values and JSON\<close>

text \<open>
  Nodes, edges and node data are untyped in the source (\<^verbatim>\<open>Record<string, any>\<close>), so
  they are modelled as JavaScript values. Numbers are compared with \<^verbatim>\<open>===\<close>: a finite
  number is its rational value (negative zero is not distinguished from zero), and the three
  non-finite numbers are constructors of their own. An object is the list of its own
  properties in insertion order. \<open>JFun\<close> stands for any function value.
\<close>

datatype jsnum = Finite rat | NaN | PosInfinity | NegInfinity

datatype jsval =
    JUndefined
  | JNull
  | JBool bool
  | JNum jsnum
  | JStr string
  | JArr "jsval list"
  | JObj "(string \<times> jsval) list"
  | JFun

text \<open>
  A JSON text is represented by its syntax tree. The number of a \<open>JsNum\<close> is the double
  that the token denotes, as \<^verbatim>\<open>JSON.parse\<close> reads it (a token beyond the range of the
  finite doubles has no tree). Printing a tree and reading it back are the built-in
  \<^verbatim>\<open>JSON.stringify\<close> and \<^verbatim>\<open>JSON.parse\<close>.
\<close>

datatype json =
    JsNull
  | JsBool bool
  | JsNum rat
  | JsStr string
  | JsArr "json list"
  | JsObj "(string \<times> json) list"

text \<open>
  \<^verbatim>\<open>JSON.stringify\<close>: \<^verbatim>\<open>undefined\<close> and functions have no JSON text
  (the result is \<^verbatim>\<open>undefined\<close>, here \<open>None\<close>); inside an array they are written
  \<^verbatim>\<open>null\<close>, inside an object the property is left out. \<^verbatim>\<open>NaN\<close> and the
  infinities are written \<^verbatim>\<open>null\<close>.
\<close>

fun stringify_num :: "jsnum \<Rightarrow> json" where
  "stringify_num (Finite r) = JsNum r"
| "stringify_num NaN = JsNull"
| "stringify_num PosInfinity = JsNull"
| "stringify_num NegInfinity = JsNull"

definition array_element :: "json option \<Rightarrow> json" where
  "array_element j = (case j of None \<Rightarrow> JsNull | Some x \<Rightarrow> x)"

definition object_property :: "string \<Rightarrow> json option \<Rightarrow> (string \<times> json) list" where
  "object_property k j = (case j of None \<Rightarrow> [] | Some x \<Rightarrow> [(k, x)])"

fun JSON_stringify :: "jsval \<Rightarrow> json option" where
  "JSON_stringify JUndefined = None"
| "JSON_stringify JFun = None"
| "JSON_stringify JNull = Some JsNull"
| "JSON_stringify (JBool b) = Some (JsBool b)"
| "JSON_stringify (JNum n) = Some (stringify_num n)"
| "JSON_stringify (JStr s) = Some (JsStr s)"
| "JSON_stringify (JArr xs) = Some (JsArr (map (\<lambda>x. array_element (JSON_stringify x)) xs))"
| "JSON_stringify (JObj kvs) =
     Some (JsObj (concat (map (\<lambda>kv. object_property (fst kv) (JSON_stringify (snd kv))) kvs)))"

text \<open>
  \<^verbatim>\<open>JSON.parse\<close>: the members of an object are defined in the order of the text, and a
  name that is repeated keeps its place and takes the later value.
\<close>

fun put_prop :: "string \<Rightarrow> 'a \<Rightarrow> (string \<times> 'a) list \<Rightarrow> (string \<times> 'a) list" where
  "put_prop k v [] = [(k, v)]"
| "put_prop k v (p # ps) = (if fst p = k then (k, v) # ps else p # put_prop k v ps)"

definition last_wins :: "(string \<times> 'a) list \<Rightarrow> (string \<times> 'a) list" where
  "last_wins kvs = foldl (\<lambda>acc kv. put_prop (fst kv) (snd kv) acc) [] kvs"

fun JSON_parse :: "json \<Rightarrow> jsval" where
  "JSON_parse JsNull = JNull"
| "JSON_parse (JsBool b) = JBool b"
| "JSON_parse (JsNum r) = JNum (Finite r)"
| "JSON_parse (JsStr s) = JStr s"
| "JSON_parse (JsArr xs) = JArr (map JSON_parse xs)"
| "JSON_parse (JsObj kvs) = JObj (last_wins (map (\<lambda>kv. (fst kv, JSON_parse (snd kv))) kvs))"

text \<open>
  Property access \<^verbatim>\<open>v.k\<close>: reading a property of \<^verbatim>\<open>null\<close> or
  \<^verbatim>\<open>undefined\<close> throws a TypeError; an object gives its own property or
  \<^verbatim>\<open>undefined\<close>; every other value gives \<^verbatim>\<open>undefined\<close> for the property
  names that are read here (\<^verbatim>\<open>id\<close>, \<^verbatim>\<open>type\<close>, \<^verbatim>\<open>nodes\<close>,
  \<^verbatim>\<open>edges\<close>, \<^verbatim>\<open>data\<close>, \<^verbatim>\<open>condition\<close>, the properties of a workflow, and the
  properties of the nodes and edges of the spec), none of which is a built-in property of a
  string, a number, a boolean or an array.
\<close>

datatype js_error = SyntaxError | TypeError

definition get_prop :: "jsval \<Rightarrow> string \<Rightarrow> js_error + jsval" where
  "get_prop v k =
     (case v of
        JUndefined \<Rightarrow> Inl TypeError
      | JNull \<Rightarrow> Inl TypeError
      | JObj kvs \<Rightarrow> (case map_of kvs k of None \<Rightarrow> Inr JUndefined | Some x \<Rightarrow> Inr x)
      | _ \<Rightarrow> Inr JUndefined)"

text \<open>
  Optional chaining \<^verbatim>\<open>v?.k\<close>, which gives \<^verbatim>\<open>undefined\<close> where plain property
  access throws. The nodes and edges of the typed state are objects, on which the two agree.
\<close>

definition prop_of :: "jsval \<Rightarrow> string \<Rightarrow> jsval" where
  "prop_of v k = (case get_prop v k of Inl e \<Rightarrow> JUndefined | Inr x \<Rightarrow> x)"

text \<open>The nullish default \<^verbatim>\<open>v ?? d\<close>.\<close>

definition nullish_or :: "jsval \<Rightarrow> jsval \<Rightarrow> jsval" where
  "nullish_or v d = (case v of JUndefined \<Rightarrow> d | JNull \<Rightarrow> d | _ \<Rightarrow> v)"

text \<open>
  \<^verbatim>\<open>localStorage\<close> maps keys to strings. An item is either a JSON text (kept as its
  tree) or some other text, on which \<^verbatim>\<open>JSON.parse\<close> throws a SyntaxError; the empty
  string is \<open>OtherText []\<close>.
\<close>

datatype item = JsonText json | OtherText string

type_synonym storage = "string \<Rightarrow> item option"

subsection \<open>What a JSON text carries\<close>

text \<open>
  The values that \<^verbatim>\<open>JSON.stringify\<close> writes without loss of a value: no
  \<^verbatim>\<open>NaN\<close>, no infinity and no function at any depth, and \<^verbatim>\<open>undefined\<close> only
  as the value of a property of an object, never as the element of an array nor as the value
  itself. Every object lists a property name once, as every JavaScript object does.
\<close>

fun finite_num :: "jsnum \<Rightarrow> bool" where
  "finite_num (Finite r) = True"
| "finite_num NaN = False"
| "finite_num PosInfinity = False"
| "finite_num NegInfinity = False"

fun json_exact :: "jsval \<Rightarrow> bool" where
  "json_exact JUndefined = False"
| "json_exact JFun = False"
| "json_exact JNull = True"
| "json_exact (JBool b) = True"
| "json_exact (JNum n) = finite_num n"
| "json_exact (JStr s) = True"
| "json_exact (JArr xs) = list_all json_exact xs"
| "json_exact (JObj kvs) =
     (distinct (map fst kvs) \<and> list_all (\<lambda>kv. snd kv = JUndefined \<or> json_exact (snd kv)) kvs)"

text \<open>
  The value without the properties whose value is \<^verbatim>\<open>undefined\<close>, at every depth.
\<close>

fun omit_undefined :: "jsval \<Rightarrow> jsval" where
  "omit_undefined (JArr xs) = JArr (map omit_undefined xs)"
| "omit_undefined (JObj kvs) =
     JObj (map (\<lambda>kv. (fst kv, omit_undefined (snd kv))) (filter (\<lambda>kv. snd kv \<noteq> JUndefined) kvs))"
| "omit_undefined v = v"

text \<open>
  \<^verbatim>\<open>JSON.parse(JSON.stringify(...))\<close> seen from inside: what comes back for a value
  that was written as an element of an array, and for a value that was written as a property
  of an object (\<^verbatim>\<open>undefined\<close> when the property was left out).
\<close>

definition reread :: "jsval \<Rightarrow> jsval" where
  "reread v = JSON_parse (array_element (JSON_stringify v))"

definition reread_property :: "jsval \<Rightarrow> jsval" where
  "reread_property v = (case JSON_stringify v of None \<Rightarrow> JUndefined | Some j \<Rightarrow> JSON_parse j)"

section \<open>The workflow provider (workflow-provider.tsx)\<close>

record workflow =
  wf_id :: string
  name :: string
  description :: string
  nodes :: "jsval list"
  edges :: "jsval list"
  outputs :: jsval
  createdAt :: string
  updatedAt :: string

text \<open>The status of a run is one of three string literals; there is no other status.\<close>

datatype run_status = Running | Completed | Failed

fun status_name :: "run_status \<Rightarrow> string" where
  "status_name Running = ''running''"
| "status_name Completed = ''completed''"
| "status_name Failed = ''failed''"

record workflow_run =
  run_id :: string
  workflowId :: string
  status :: run_status
  startedAt :: string
  completedAt :: "string option"
  logs :: "string list"
  result :: "jsval option"

text \<open>
  The state that \<^verbatim>\<open>WorkflowProvider\<close> holds in its four \<^verbatim>\<open>useState\<close> cells,
  and the browser's \<^verbatim>\<open>localStorage\<close>. A state setter called with a function is applied
  to the latest state, so each operation is a function from the state to the next state.
\<close>

record provider_state =
  currentWorkflow :: "workflow option"
  workflows :: "workflow list"
  workflowRuns :: "workflow_run list"
  isRunning :: bool
  localStorage :: storage

text \<open>\<^verbatim>\<open>Date.now()\<close> is a number of milliseconds; a template literal prints it in decimal.\<close>

definition digit :: "nat \<Rightarrow> char" where
  "digit d = ''0123456789'' ! d"

function decimal :: "nat \<Rightarrow> string" where
  "decimal n = (if n < 10 then [digit n] else decimal (n div 10) @ [digit (n mod 10)])"
  by pat_completeness auto
termination
  by (relation "measure (\<lambda>n. n)") auto

declare decimal.simps [simp del]

subsection \<open>saveWorkflow\<close>

text \<open>
  The workflow object that \<^verbatim>\<open>saveWorkflow\<close> builds. \<open>now\<close> is
  \<^verbatim>\<open>new Date().toISOString()\<close> and \<open>ms\<close> is \<^verbatim>\<open>Date.now()\<close>. The operator
  \<^verbatim>\<open>||\<close> takes its right operand when the left one is missing or the empty string.
\<close>

definition or_else :: "string option \<Rightarrow> string \<Rightarrow> string" where
  "or_else x d = (case x of None \<Rightarrow> d | Some v \<Rightarrow> if v = [] then d else v)"

definition new_workflow ::
  "workflow option \<Rightarrow> string \<Rightarrow> string \<Rightarrow> jsval list \<Rightarrow> jsval list \<Rightarrow> jsval \<Rightarrow> string \<Rightarrow> nat \<Rightarrow> workflow" where
  "new_workflow cw nm descr ns es outs now ms =
     \<lparr> wf_id = or_else (map_option wf_id cw) (''workflow-'' @ decimal ms),
       name = nm,
       description = descr,
       nodes = ns,
       edges = es,
       outputs = outs,
       createdAt = or_else (map_option createdAt cw) now,
       updatedAt = now \<rparr>"

text \<open>The updater passed to \<^verbatim>\<open>setWorkflows\<close>: replace every entry with the id, or append.\<close>

definition upsert_workflow :: "workflow \<Rightarrow> workflow list \<Rightarrow> workflow list" where
  "upsert_workflow w prev =
     (case find (\<lambda>x. wf_id x = wf_id w) prev of
        Some existing \<Rightarrow> map (\<lambda>x. if wf_id x = wf_id w then w else x) prev
      | None \<Rightarrow> prev @ [w])"

definition workflow_to_js :: "workflow \<Rightarrow> jsval" where
  "workflow_to_js w =
     JObj [(''id'', JStr (wf_id w)), (''name'', JStr (name w)),
           (''description'', JStr (description w)), (''nodes'', JArr (nodes w)),
           (''edges'', JArr (edges w)), (''outputs'', outputs w),
           (''createdAt'', JStr (createdAt w)), (''updatedAt'', JStr (updatedAt w))]"

text \<open>
  \<^verbatim>\<open>JSON.parse(localStorage.getItem("workflows") || "[]")\<close>: a missing or empty item
  reads as the empty array.
\<close>

definition read_saved :: "storage \<Rightarrow> js_error + jsval" where
  "read_saved st =
     (case st ''workflows'' of
        None \<Rightarrow> Inr (JArr [])
      | Some (OtherText t) \<Rightarrow> if t = [] then Inr (JArr []) else Inl SyntaxError
      | Some (JsonText j) \<Rightarrow> Inr (JSON_parse j))"

text \<open>
  \<^verbatim>\<open>xs.findIndex((w) => w.id === i)\<close> on the elements of an array: the index of the
  first element whose \<^verbatim>\<open>id\<close> is the string, \<open>None\<close> for \<^verbatim>\<open>-1\<close>; reading
  \<^verbatim>\<open>id\<close> of a \<^verbatim>\<open>null\<close> element throws.
\<close>

fun findIndex_id :: "string \<Rightarrow> jsval list \<Rightarrow> js_error + nat option" where
  "findIndex_id i [] = Inr None"
| "findIndex_id i (w # ws) =
     (case get_prop w ''id'' of
        Inl e \<Rightarrow> Inl e
      | Inr v \<Rightarrow>
          if v = JStr i then Inr (Some 0)
          else (case findIndex_id i ws of
                  Inl e \<Rightarrow> Inl e
                | Inr None \<Rightarrow> Inr None
                | Inr (Some k) \<Rightarrow> Inr (Some (Suc k))))"

text \<open>
  The second half of \<^verbatim>\<open>saveWorkflow\<close>: the copy in \<^verbatim>\<open>localStorage\<close>. A stored
  value that is not an array has no \<^verbatim>\<open>findIndex\<close> method, which is a TypeError.
\<close>

definition setItem_json :: "string \<Rightarrow> jsval \<Rightarrow> storage \<Rightarrow> storage" where
  \<comment> \<open>\<^verbatim>\<open>localStorage.setItem(key, JSON.stringify(v))\<close>; \<^verbatim>\<open>undefined\<close> is stored as the
     text \<^verbatim>\<open>undefined\<close>, which is not a JSON text.\<close>
  "setItem_json key v st =
     (case JSON_stringify v of
        Some j \<Rightarrow> st(key \<mapsto> JsonText j)
      | None \<Rightarrow> st(key \<mapsto> OtherText ''undefined''))"

definition write_saved :: "jsval list \<Rightarrow> storage \<Rightarrow> storage" where
  "write_saved ws st = setItem_json ''workflows'' (JArr ws) st"

definition persist_workflow :: "workflow \<Rightarrow> storage \<Rightarrow> js_error + storage" where
  "persist_workflow w st =
     (case read_saved st of
        Inl e \<Rightarrow> Inl e
      | Inr (JArr savedWorkflows) \<Rightarrow>
          (case findIndex_id (wf_id w) savedWorkflows of
             Inl e \<Rightarrow> Inl e
           | Inr (Some existingIndex) \<Rightarrow>
               Inr (write_saved (savedWorkflows[existingIndex := workflow_to_js w]) st)
           | Inr None \<Rightarrow> Inr (write_saved (savedWorkflows @ [workflow_to_js w]) st))
      | Inr _ \<Rightarrow> Inl TypeError)"

text \<open>
  \<^verbatim>\<open>saveWorkflow\<close> returns nothing; the second component is the exception it throws,
  if any. The two state setters have run before the storage is touched, so their effect
  stays when the storage part throws.
\<close>

definition saveWorkflow ::
  "string \<Rightarrow> string \<Rightarrow> jsval list \<Rightarrow> jsval list \<Rightarrow> jsval \<Rightarrow> string \<Rightarrow> nat \<Rightarrow> provider_state
     \<Rightarrow> provider_state \<times> js_error option" where
  "saveWorkflow nm descr ns es outs now ms s =
     (let w = new_workflow (currentWorkflow s) nm descr ns es outs now ms;
          s1 = s\<lparr> workflows := upsert_workflow w (workflows s), currentWorkflow := Some w \<rparr>
      in case persist_workflow w (localStorage s1) of
           Inl e \<Rightarrow> (s1, Some e)
         | Inr st \<Rightarrow> (s1\<lparr> localStorage := st \<rparr>, None))"

subsection \<open>loadWorkflow and deleteWorkflow\<close>

text \<open>
  \<^verbatim>\<open>JSON.parse\<close> returns untyped objects, which \<^verbatim>\<open>loadWorkflow\<close> puts into the
  typed state unchecked. \<open>as_workflow\<close> is the typed view of such an object: an object
  whose properties of the \<^verbatim>\<open>Workflow\<close> interface have the declared types is read as
  that workflow, whatever the order of its properties (\<^verbatim>\<open>outputs\<close> may be any value,
  also missing). Properties outside the interface are not part of the typed state.
\<close>

definition as_workflow :: "jsval \<Rightarrow> workflow option" where
  "as_workflow v =
     (case (prop_of v ''id'', prop_of v ''name'', prop_of v ''description'', prop_of v ''nodes'',
            prop_of v ''edges'', prop_of v ''createdAt'', prop_of v ''updatedAt'') of
        (JStr i, JStr n, JStr d, JArr ns, JArr es, JStr c, JStr u) \<Rightarrow>
          Some \<lparr> wf_id = i, name = n, description = d, nodes = ns, edges = es,
                 outputs = prop_of v ''outputs'', createdAt = c, updatedAt = u \<rparr>
      | _ \<Rightarrow> None)"

text \<open>
  What \<^verbatim>\<open>loadWorkflow\<close> returns: it throws, returns \<^verbatim>\<open>null\<close>, or returns the
  stored object. A stored object whose properties do not have the types of a workflow
  (\<open>FoundUntyped\<close>) cannot be held by the typed state: the model stops there and leaves the
  state as it is, where the code goes on with the ill-typed object.
\<close>

datatype load_result = Threw js_error | NotFound | Found workflow | FoundUntyped jsval

definition loadWorkflow :: "string \<Rightarrow> provider_state \<Rightarrow> provider_state \<times> load_result" where
  "loadWorkflow wid s =
     (case read_saved (localStorage s) of
        Inl e \<Rightarrow> (s, Threw e)
      | Inr (JArr savedWorkflows) \<Rightarrow>
          (case findIndex_id wid savedWorkflows of
             Inl e \<Rightarrow> (s, Threw e)
           | Inr None \<Rightarrow> (s, NotFound)
           | Inr (Some k) \<Rightarrow>
               (case as_workflow (savedWorkflows ! k) of
                  None \<Rightarrow> (s, FoundUntyped (savedWorkflows ! k))
                | Some w \<Rightarrow>
                    (s\<lparr> currentWorkflow := Some w,
                        workflows :=
                          (case find (\<lambda>x. wf_id x = wid) (workflows s) of
                             None \<Rightarrow> workflows s @ [w]
                           | Some existing \<Rightarrow> workflows s) \<rparr>,
                     Found w)))
      | Inr _ \<Rightarrow> (s, Threw TypeError))"

fun filter_not_id :: "string \<Rightarrow> jsval list \<Rightarrow> js_error + jsval list" where
  "filter_not_id i [] = Inr []"
| "filter_not_id i (w # ws) =
     (case get_prop w ''id'' of
        Inl e \<Rightarrow> Inl e
      | Inr v \<Rightarrow>
          (case filter_not_id i ws of
             Inl e \<Rightarrow> Inl e
           | Inr rest \<Rightarrow> Inr (if v \<noteq> JStr i then w # rest else rest)))"

definition deleteWorkflow :: "string \<Rightarrow> provider_state \<Rightarrow> provider_state \<times> js_error option" where
  "deleteWorkflow wid s =
     (let s1 = s\<lparr> workflows := filter (\<lambda>w. wf_id w \<noteq> wid) (workflows s) \<rparr> in
      case read_saved (localStorage s1) of
        Inl e \<Rightarrow> (s1, Some e)
      | Inr (JArr savedWorkflows) \<Rightarrow>
          (case filter_not_id wid savedWorkflows of
             Inl e \<Rightarrow> (s1, Some e)
           | Inr filtered \<Rightarrow>
               (let s2 = s1\<lparr> localStorage := write_saved filtered (localStorage s1) \<rparr> in
                (if map_option wf_id (currentWorkflow s) = Some wid
                 then s2\<lparr> currentWorkflow := None \<rparr> else s2, None)))
      | Inr _ \<Rightarrow> (s1, Some TypeError))"

subsection \<open>runWorkflow\<close>

text \<open>
  \<^verbatim>\<open>runWorkflow\<close> is asynchronous. Its first part runs when it is called, up to the
  \<^verbatim>\<open>await\<close>; its second part runs when the two-second timer has fired, on the state of
  that moment, with the \<^verbatim>\<open>run\<close> object of the first part. \<open>ms\<close> is
  \<^verbatim>\<open>Date.now()\<close> and \<open>now\<close> is \<^verbatim>\<open>new Date().toISOString()\<close>.
  The first part returns the run it created, \<open>None\<close> when it returned early.
\<close>

definition new_run :: "string \<Rightarrow> nat \<Rightarrow> string \<Rightarrow> workflow \<Rightarrow> workflow_run" where
  "new_run wid ms now workflow =
     \<lparr> run_id = ''run-'' @ decimal ms,
       workflowId = wid,
       status = Running,
       startedAt = now,
       completedAt = None,
       logs = [''Starting workflow: '' @ name workflow],
       result = None \<rparr>"

definition runWorkflow_start ::
  "string \<Rightarrow> nat \<Rightarrow> string \<Rightarrow> provider_state \<Rightarrow> provider_state \<times> workflow_run option" where
  "runWorkflow_start wid ms now s =
     (case find (\<lambda>w. wf_id w = wid) (workflows s) of
        None \<Rightarrow> (s, None)
      | Some workflow \<Rightarrow>
          (let run = new_run wid ms now workflow
           in (s\<lparr> isRunning := True, workflowRuns := workflowRuns s @ [run] \<rparr>, Some run)))"

text \<open>
  The awaited promise \<^verbatim>\<open>new Promise((resolve) => setTimeout(resolve, 2000))\<close> is only
  ever resolved, never rejected, and nothing else in the \<^verbatim>\<open>try\<close> block throws.
  \<open>Inl\<close> would carry the thrown value as the template literal \<^verbatim>\<open>${error}\<close> prints it.
\<close>

definition simulate_execution :: "string + unit" where
  "simulate_execution = Inr ()"

definition completedRun :: "workflow_run \<Rightarrow> string \<Rightarrow> workflow_run" where
  "completedRun run now =
     run\<lparr> status := Completed,
          completedAt := Some now,
          logs := logs run @ [''Executing nodes in sequence...'',
                              ''All nodes completed successfully'',
                              ''Workflow execution finished''],
          result := Some (JObj [(''success'', JBool True),
                                (''message'', JStr ''Workflow completed successfully'')]) \<rparr>"

definition failedRun :: "workflow_run \<Rightarrow> string \<Rightarrow> string \<Rightarrow> workflow_run" where
  "failedRun run now error =
     run\<lparr> status := Failed,
          completedAt := Some now,
          logs := logs run @ [''Error: '' @ error] \<rparr>"

definition replace_run :: "workflow_run \<Rightarrow> workflow_run list \<Rightarrow> workflow_run list" where
  \<comment> \<open>\<^verbatim>\<open>prev.map((r) => (r.id === run.id ? newRun : r))\<close>\<close>
  "replace_run newRun prev = map (\<lambda>r. if run_id r = run_id newRun then newRun else r) prev"

definition runWorkflow_finish :: "workflow_run \<Rightarrow> string \<Rightarrow> provider_state \<Rightarrow> provider_state" where
  "runWorkflow_finish run now s =
     (let s1 = (case simulate_execution of
                  Inr u \<Rightarrow> s\<lparr> workflowRuns := replace_run (completedRun run now) (workflowRuns s) \<rparr>
                | Inl e \<Rightarrow> s\<lparr> workflowRuns := replace_run (failedRun run now e) (workflowRuns s) \<rparr>)
      in s1\<lparr> isRunning := False \<rparr>)"

text \<open>One call of \<^verbatim>\<open>runWorkflow\<close> with nothing else happening during the wait.\<close>

definition runWorkflow :: "string \<Rightarrow> nat \<Rightarrow> string \<Rightarrow> string \<Rightarrow> provider_state \<Rightarrow> provider_state" where
  "runWorkflow wid ms now now' s =
     (case runWorkflow_start wid ms now s of
        (s1, None) \<Rightarrow> s1
      | (s1, Some run) \<Rightarrow> runWorkflow_finish run now' s1)"

subsection \<open>The provider as a transition system\<close>

text \<open>
  The callbacks of the provider run one at a time, each to completion, in the order the
  browser delivers clicks and timers. An application state is the provider state together
  with the runs whose timers have not fired yet; \<open>RunFinish k\<close> is the firing of the timer
  of the \<open>k\<close>-th of them. \<^verbatim>\<open>setCurrentWorkflow\<close> is exposed to the components as it is.
\<close>

datatype event =
    Save string string "jsval list" "jsval list" jsval string nat
  | Load string
  | Delete string
  | SetCurrent "workflow option"
  | RunStart string nat string
  | RunFinish nat string

record app =
  provider :: provider_state
  pending :: "workflow_run list"

definition step :: "event \<Rightarrow> app \<Rightarrow> app" where
  "step e a =
     (case e of
        Save nm descr ns es outs now ms \<Rightarrow>
          a\<lparr> provider := fst (saveWorkflow nm descr ns es outs now ms (provider a)) \<rparr>
      | Load wid \<Rightarrow> a\<lparr> provider := fst (loadWorkflow wid (provider a)) \<rparr>
      | Delete wid \<Rightarrow> a\<lparr> provider := fst (deleteWorkflow wid (provider a)) \<rparr>
      | SetCurrent cw \<Rightarrow> a\<lparr> provider := (provider a)\<lparr> currentWorkflow := cw \<rparr> \<rparr>
      | RunStart wid ms now \<Rightarrow>
          (case runWorkflow_start wid ms now (provider a) of
             (s, None) \<Rightarrow> a\<lparr> provider := s \<rparr>
           | (s, Some run) \<Rightarrow> \<lparr> provider = s, pending = pending a @ [run] \<rparr>)
      | RunFinish k now \<Rightarrow>
          if k < length (pending a)
          then \<lparr> provider = runWorkflow_finish (pending a ! k) now (provider a),
                 pending = take k (pending a) @ drop (Suc k) (pending a) \<rparr>
          else a)"

fun exec :: "event list \<Rightarrow> app \<Rightarrow> app" where
  "exec [] a = a"
| "exec (e # es) a = exec es (step e a)"

text \<open>
  The state after mounting: no current workflow, no runs, and the workflows that the
  initialiser read from the storage.
\<close>

definition mounted :: "workflow list \<Rightarrow> storage \<Rightarrow> app" where
  "mounted ws st =
     \<lparr> provider = \<lparr> currentWorkflow = None, workflows = ws, workflowRuns = [],
                     isRunning = False, localStorage = st \<rparr>,
       pending = [] \<rparr>"

abbreviation runs :: "app \<Rightarrow> workflow_run list" where
  "runs a \<equiv> workflowRuns (provider a)"

text \<open>
  The only caller of \<^verbatim>\<open>runWorkflow\<close> is \<^verbatim>\<open>handleRun\<close> of the toolbar, which passes the
  id of the current workflow, from a button that is disabled while there is no current
  workflow or \<^verbatim>\<open>isRunning\<close> holds. An event is gated when it is not a start of a run or
  is a start that the toolbar can make; an execution is gated when each of its events is.
\<close>

definition gated :: "event \<Rightarrow> app \<Rightarrow> bool" where
  "gated e a =
     (case e of
        RunStart wid ms now \<Rightarrow>
          \<not> isRunning (provider a)
          \<and> map_option wf_id (currentWorkflow (provider a)) = Some wid
      | _ \<Rightarrow> True)"

fun gated_run :: "event list \<Rightarrow> app \<Rightarrow> bool" where
  "gated_run [] a = True"
| "gated_run (e # es) a = (gated e a \<and> gated_run es (step e a))"

text \<open>
  The invariant of gated executions: at most one timer is pending, \<^verbatim>\<open>isRunning\<close> holds
  while it is, and a run of the list that is still running is the pending one.
\<close>

definition one_run :: "app \<Rightarrow> bool" where
  "one_run a =
     ((pending a = [] \<or> (isRunning (provider a) \<and> length (pending a) = 1))
      \<and> list_all (\<lambda>r. status r \<noteq> Running \<or> r \<in> set (pending a)) (runs a))"

text \<open>No run of the list has failed.\<close>

definition no_failed :: "app \<Rightarrow> bool" where
  "no_failed a = list_all (\<lambda>r. status r = Running \<or> status r = Completed) (runs a)"

section \<open>The React Flow editor: persistence of the canvas\<close>

text \<open>
  \<^verbatim>\<open>saveLocal\<close> writes the nodes and edges of the canvas under one key;
  \<^verbatim>\<open>loadLocal\<close> returns \<^verbatim>\<open>null\<close> (\<open>None\<close>) when the item is missing or empty,
  or when parsing or reading the properties throws, and otherwise the pair of
  \<^verbatim>\<open>parsed.nodes ?? []\<close> and \<^verbatim>\<open>parsed.edges ?? []\<close>.
\<close>

definition STORAGE_KEY :: string where
  "STORAGE_KEY = ''wf.reactflow''"

definition saveLocal :: "jsval list \<Rightarrow> jsval list \<Rightarrow> storage \<Rightarrow> storage" where
  "saveLocal ns es st =
     setItem_json STORAGE_KEY (JObj [(''nodes'', JArr ns), (''edges'', JArr es)]) st"

definition loadLocal :: "storage \<Rightarrow> (jsval \<times> jsval) option" where
  "loadLocal st =
     (case st STORAGE_KEY of
        None \<Rightarrow> None
      | Some (OtherText t) \<Rightarrow> None
      | Some (JsonText j) \<Rightarrow>
          (case get_prop (JSON_parse j) ''nodes'' of
             Inl e \<Rightarrow> None
           | Inr ns \<Rightarrow>
               (case get_prop (JSON_parse j) ''edges'' of
                  Inl e \<Rightarrow> None
                | Inr es \<Rightarrow> Some (nullish_or ns (JArr []), nullish_or es (JArr [])))))"

subsection \<open>Connecting nodes\<close>

text \<open>A connection as React Flow reports it.\<close>

record connection =
  source :: "string option"
  target :: "string option"
  sourceHandle :: "string option"
  targetHandle :: "string option"

definition string_or_null :: "string option \<Rightarrow> jsval" where
  "string_or_null x = (case x of None \<Rightarrow> JNull | Some s \<Rightarrow> JStr s)"

text \<open>
  The answer of the prompt is any text the user types, so it is modelled as JavaScript has
  it, by its UTF-16 code units. \<open>str_true\<close> and \<open>str_false\<close> are the strings
  \<^verbatim>\<open>true\<close> and \<^verbatim>\<open>false\<close>.
\<close>

type_synonym code_units = "nat list"

definition str_true :: code_units where
  "str_true = [116, 114, 117, 101]"

definition str_false :: code_units where
  "str_false = [102, 97, 108, 115, 101]"

text \<open>
  \<^verbatim>\<open>String.prototype.trim\<close> removes the white space and the line terminators of
  ECMAScript at both ends: tab, line feed, vertical tab, form feed, carriage return, space,
  no-break space, the other space separators of Unicode, the line and paragraph separators
  and the byte order mark.
\<close>

definition is_space :: "nat \<Rightarrow> bool" where
  "is_space c =
     (c \<in> set [0x0009, 0x000A, 0x000B, 0x000C, 0x000D, 0x0020, 0x00A0, 0x1680, 0x2028, 0x2029,
                0x202F, 0x205F, 0x3000, 0xFEFF]
      \<or> (0x2000 \<le> c \<and> c \<le> 0x200A))"

definition trim :: "code_units \<Rightarrow> code_units" where
  "trim s = rev (dropWhile is_space (rev (dropWhile is_space s)))"

text \<open>
  \<^verbatim>\<open>onConnect\<close>: the source node is looked up by id; when it is a
  \<^verbatim>\<open>logic.if\<close> node the user is prompted (\<open>answer\<close> is what the prompt returns,
  \<open>None\<close> when it is dismissed), and an answer that is \<^verbatim>\<open>true\<close> or
  \<^verbatim>\<open>false\<close> after \<^verbatim>\<open>trim\<close> and \<^verbatim>\<open>toLowerCase\<close> becomes the label of the
  edge. \<open>connect_edge\<close> is the edge object handed to \<^verbatim>\<open>addEdge\<close>. Two library
  functions are parameters of the model: \<^verbatim>\<open>String.prototype.toLowerCase\<close>, which
  follows the case tables of Unicode, and React Flow's \<^verbatim>\<open>addEdge\<close>;
  \<^verbatim>\<open>arrowclosed\<close> is the value of \<^verbatim>\<open>MarkerType.ArrowClosed\<close>.
\<close>

definition source_is_if :: "jsval list \<Rightarrow> connection \<Rightarrow> bool" where
  "source_is_if ns conn =
     (case find (\<lambda>n. prop_of n ''id'' = string_or_null (source conn)) ns of
        None \<Rightarrow> False
      | Some src \<Rightarrow> prop_of src ''type'' = JStr ''logic.if'')"

definition edge_label ::
  "(code_units \<Rightarrow> code_units) \<Rightarrow> bool \<Rightarrow> code_units option \<Rightarrow> string option" where
  "edge_label toLowerCase isIf answer =
     (if isIf
      then (case answer of
              None \<Rightarrow> None
            | Some a \<Rightarrow>
                if toLowerCase (trim a) = str_true then Some ''true''
                else if toLowerCase (trim a) = str_false then Some ''false''
                else None)
      else None)"

definition connect_edge ::
  "(code_units \<Rightarrow> code_units) \<Rightarrow> jsval list \<Rightarrow> code_units option \<Rightarrow> connection \<Rightarrow> jsval" where
  "connect_edge toLowerCase ns answer conn =
     (let label = edge_label toLowerCase (source_is_if ns conn) answer in
      JObj [(''source'', string_or_null (source conn)),
            (''sourceHandle'', string_or_null (sourceHandle conn)),
            (''target'', string_or_null (target conn)),
            (''targetHandle'', string_or_null (targetHandle conn)),
            (''type'', JStr ''default''),
            (''data'', (case label of
                          None \<Rightarrow> JUndefined
                        | Some l \<Rightarrow> JObj [(''condition'', JStr l)])),
            (''markerEnd'', JObj [(''type'', JStr ''arrowclosed'')]),
            (''label'', (case label of None \<Rightarrow> JUndefined | Some l \<Rightarrow> JStr l))])"

definition onConnect ::
  "(jsval \<Rightarrow> jsval list \<Rightarrow> jsval list) \<Rightarrow> (code_units \<Rightarrow> code_units) \<Rightarrow> jsval list
     \<Rightarrow> code_units option \<Rightarrow> connection \<Rightarrow> jsval list \<Rightarrow> jsval list" where
  "onConnect addEdge toLowerCase ns answer conn eds =
     addEdge (connect_edge toLowerCase ns answer conn) eds"

text \<open>
  The node registry: the component of each node kind and the number of source handles it
  renders, whose ids are \<^verbatim>\<open>String(i)\<close>.
\<close>

definition node_outputs :: "string \<Rightarrow> nat option" where
  "node_outputs kind =
     (if kind \<in> set [''trigger.manual'', ''trigger.webhook'', ''trigger.cron'', ''trigger.form'']
      then Some 1
      else if kind \<in> set [''action.telegram'', ''action.email'', ''action.llm''] then Some 1
      else if kind = ''logic.if'' then Some 2
      else None)"

definition source_handles :: "string \<Rightarrow> string list" where
  "source_handles kind =
     (case node_outputs kind of None \<Rightarrow> [] | Some n \<Rightarrow> map decimal [0..<n])"

text \<open>The condition that an edge carries in its data, \<^verbatim>\<open>e.data?.condition\<close>.\<close>

definition edge_condition :: "jsval \<Rightarrow> jsval" where
  "edge_condition e = prop_of (prop_of e ''data'') ''condition''"

section \<open>The specified validator\<close>

text \<open>
  Modelled from the spec: the Validator's edge endpoint check (section 4.1: the source and
  the target of every edge reference real nodes), which the repository does not implement.
  A workflow with a dangling edge is not runnable, whatever the other checks say.
\<close>

definition dangling_edges :: "workflow \<Rightarrow> jsval list" where
  "dangling_edges w =
     filter (\<lambda>e. prop_of e ''source'' \<notin> set (map (\<lambda>n. prop_of n ''id'') (nodes w))
               \<or> prop_of e ''target'' \<notin> set (map (\<lambda>n. prop_of n ''id'') (nodes w)))
            (edges w)"







text \<open>
  Modelled from the spec: the nodes that the edges leaving a node lead to, for the search of
  the acyclicity and reachability checks.
\<close>

definition successors :: "jsval list \<Rightarrow> jsval \<Rightarrow> jsval list" where
  "successors es n =
     map (\<lambda>e. prop_of e ''target'') (filter (\<lambda>e. prop_of e ''source'' = n) es)"




text \<open>
  Modelled from the spec: reachability of a node from another by a search of the same kind,
  which gives up a path when it comes back to a node of the path.
\<close>

function reaches :: "jsval list \<Rightarrow> jsval list \<Rightarrow> jsval \<Rightarrow> jsval \<Rightarrow> bool" where
  "reaches es stack n x =
     (if n = x then True
      else if n \<in> set stack then False
      else list_ex (\<lambda>m. reaches es (n # stack) m x) (successors es n))"
  by pat_completeness auto
termination
proof (relation "measure (\<lambda>(es, stack, n, x). card ((\<lambda>e. prop_of e ''source'') ` set es - set stack))")
  show "wf (measure (\<lambda>(es, stack, n, x). card ((\<lambda>e. prop_of e ''source'') ` set es - set stack)))"
    by simp
next
  fix es :: "jsval list" and stack n x m
  assume "n \<notin> set stack" and "m \<in> set (successors es n)"
  then have "n \<in> (\<lambda>e. prop_of e ''source'') ` set es - set stack"
    by (auto simp: successors_def)
  moreover have "(\<lambda>e. prop_of e ''source'') ` set es - set (n # stack)
                 = ((\<lambda>e. prop_of e ''source'') ` set es - set stack) - {n}"
    by auto
  moreover have "finite ((\<lambda>e. prop_of e ''source'') ` set es - set stack)"
    by simp
  ultimately have "card ((\<lambda>e. prop_of e ''source'') ` set es - set (n # stack))
                   < card ((\<lambda>e. prop_of e ''source'') ` set es - set stack)"
    by (metis card_Diff1_less)
  then show "((es, n # stack, m, x), (es, stack, n, x))
             \<in> measure (\<lambda>(es, stack, n, x). card ((\<lambda>e. prop_of e ''source'') ` set es - set stack))"
    by simp
qed

declare reaches.simps [simp del]

text \<open>
  Modelled from the spec: the reachability check (section 4.1: no dangling reachable node
  without an inbound edge, except the trigger itself), read as it is worded: a node is at
  fault when it is not the trigger, is reachable from the trigger, and is the target of no
  edge.
\<close>

definition unreachable_nodes :: "string \<Rightarrow> workflow \<Rightarrow> jsval list" where
  "unreachable_nodes trigger w =
     filter (\<lambda>n. prop_of n ''id'' \<noteq> JStr trigger
               \<and> reaches (edges w) [] (JStr trigger) (prop_of n ''id'')
               \<and> prop_of n ''id'' \<notin> set (map (\<lambda>e. prop_of e ''target'') (edges w)))
            (nodes w)"


text \<open>
  Modelled from the spec: the edges of a workflow (section 3) as a relation between node
  ids, and the part of it that leaves no node of a set; both serve to state what the
  searches compute.
\<close>

definition arrows :: "jsval list \<Rightarrow> (jsval \<times> jsval) set" where
  "arrows es = set (map (\<lambda>e. (prop_of e ''source'', prop_of e ''target'')) es)"

definition avoiding :: "jsval list \<Rightarrow> jsval set \<Rightarrow> (jsval \<times> jsval) set" where
  "avoiding es S = {(a, b). (a, b) \<in> arrows es \<and> a \<notin> S}"

section \<open>Example data\<close>

text \<open>
  A workflow as the canvas builds it: a manual trigger, a condition, and one action on
  each side of the condition.
\<close>

definition example_node :: "string \<Rightarrow> string \<Rightarrow> string \<Rightarrow> string \<Rightarrow> jsval" where
  "example_node i lbl ty nty =
     JObj [(''id'', JStr i), (''type'', JStr ''workflow''),
           (''position'', JObj [(''x'', JNum (Finite 250)), (''y'', JNum (Finite 100))]),
           (''data'', JObj [(''label'', JStr lbl), (''type'', JStr ty), (''nodeType'', JStr nty)])]"

definition example_edge :: "string \<Rightarrow> string \<Rightarrow> jsval" where
  "example_edge src tgt =
     JObj [(''source'', JStr src), (''sourceHandle'', JNull), (''target'', JStr tgt),
           (''targetHandle'', JNull), (''id'', JStr (''xy-edge__'' @ src @ ''-'' @ tgt))]"

definition branching_workflow :: workflow where
  "branching_workflow =
     \<lparr> wf_id = ''workflow-1'', name = ''Notify'', description = ''Branch on status'',
       nodes = [example_node ''1'' ''Manual Trigger'' ''trigger'' ''manual'',
                example_node ''2'' ''If'' ''logic'' ''if'',
                example_node ''3'' ''Send Telegram'' ''action'' ''telegram'',
                example_node ''4'' ''Send Email'' ''action'' ''email''],
       edges = [example_edge ''1'' ''2'', example_edge ''2'' ''3'', example_edge ''2'' ''4''],
       outputs = JNum (Finite 1),
       createdAt = ''2025-01-01T00:00:00.000Z'', updatedAt = ''2025-01-01T00:00:00.000Z'' \<rparr>"

text \<open>A workflow with an edge to a node that does not exist.\<close>

definition dangling_workflow :: workflow where
  "dangling_workflow =
     \<lparr> wf_id = ''workflow-2'', name = ''Broken'', description = [],
       nodes = [example_node ''1'' ''Manual Trigger'' ''trigger'' ''manual''],
       edges = [example_edge ''1'' ''9''],
       outputs = JNum (Finite 1),
       createdAt = ''2025-01-02T00:00:00.000Z'', updatedAt = ''2025-01-02T00:00:00.000Z'' \<rparr>"





definition example_state :: provider_state where
  "example_state =
     \<lparr> currentWorkflow = Some branching_workflow,
       workflows = [branching_workflow, dangling_workflow],
       workflowRuns = [], isRunning = False, localStorage = Map.empty \<rparr>"

text \<open>The application mounted with the two example workflows.\<close>

definition example_app :: app where
  "example_app = mounted [branching_workflow, dangling_workflow] Map.empty"

text \<open>Saving a new workflow and starting it from the toolbar.\<close>

definition saved_and_started :: "event list" where
  "saved_and_started =
     [Save ''Digest'' ''Daily digest'' [] [] (JNum (Finite 1)) ''2025-03-01T09:00:00.000Z'' 5,
      RunStart ''workflow-5'' 6 ''2025-03-01T09:00:01.000Z'']"

text \<open>
  A condition node and two action nodes on the canvas of the React Flow editor, and a
  connection drawn from a port of a node.
\<close>

definition if_edges_nodes :: "jsval list" where
  "if_edges_nodes =
     [JObj [(''id'', JStr ''2''), (''type'', JStr ''logic.if''),
            (''position'', JObj [(''x'', JNum (Finite 200)), (''y'', JNum (Finite 150))]),
            (''data'', JObj [(''label'', JStr ''if'')])],
      JObj [(''id'', JStr ''3''), (''type'', JStr ''action.telegram''),
            (''position'', JObj [(''x'', JNum (Finite 400)), (''y'', JNum (Finite 100))]),
            (''data'', JObj [(''label'', JStr ''telegram'')])],
      JObj [(''id'', JStr ''4''), (''type'', JStr ''action.email''),
            (''position'', JObj [(''x'', JNum (Finite 400)), (''y'', JNum (Finite 200))]),
            (''data'', JObj [(''label'', JStr ''email'')])]]"

definition port_connection :: "string \<Rightarrow> string \<Rightarrow> string \<Rightarrow> connection" where
  "port_connection src port tgt =
     \<lparr> source = Some src, target = Some tgt, sourceHandle = Some port, targetHandle = None \<rparr>"

text \<open>
  On text of code units below 128, \<^verbatim>\<open>toLowerCase\<close> changes the letters A to Z only.
  The examples apply it to such text.
\<close>

definition ascii_lower :: "code_units \<Rightarrow> code_units" where
  "ascii_lower s = map (\<lambda>c. if 65 \<le> c \<and> c \<le> 90 then c + 32 else c) s"

text \<open>
  Answers to the prompt: \<^verbatim>\<open>False\<close>, \<^verbatim>\<open>maybe\<close>, \<^verbatim>\<open>true\<close>, \<^verbatim>\<open>true\<close> after a
  no-break space, \<^verbatim>\<open>TRUE\<close> between two spaces, and \<^verbatim>\<open>false\<close>.
\<close>

definition answer_False :: code_units where
  "answer_False = [70, 97, 108, 115, 101]"

definition answer_maybe :: code_units where
  "answer_maybe = [109, 97, 121, 98, 101]"

definition answer_true :: code_units where
  "answer_true = [116, 114, 117, 101]"

definition answer_nbsp_true :: code_units where
  "answer_nbsp_true = [0x00A0, 116, 114, 117, 101]"

definition answer_TRUE_spaced :: code_units where
  "answer_TRUE_spaced = [32, 84, 82, 85, 69, 32]"

definition answer_false :: code_units where
  "answer_false = [102, 97, 108, 115, 101]"

text \<open>
  Two edges as \<^verbatim>\<open>onConnect\<close> builds them, the first drawn from the condition node and
  answered \<^verbatim>\<open>true\<close>, the second drawn from an action node (its \<^verbatim>\<open>data\<close> and
  \<^verbatim>\<open>label\<close> are \<^verbatim>\<open>undefined\<close>); and the same edges without the properties whose
  value is \<^verbatim>\<open>undefined\<close>.
\<close>

definition canvas_edges :: "jsval list" where
  "canvas_edges =
     [connect_edge ascii_lower if_edges_nodes (Some answer_true) (port_connection ''2'' ''0'' ''3''),
      connect_edge ascii_lower if_edges_nodes None (port_connection ''3'' ''0'' ''4'')]"

definition reread_edges :: "jsval list" where
  "reread_edges =
     [JObj [(''source'', JStr ''2''), (''sourceHandle'', JStr ''0''), (''target'', JStr ''3''),
            (''targetHandle'', JNull), (''type'', JStr ''default''),
            (''data'', JObj [(''condition'', JStr ''true'')]),
            (''markerEnd'', JObj [(''type'', JStr ''arrowclosed'')]), (''label'', JStr ''true'')],
      JObj [(''source'', JStr ''3''), (''sourceHandle'', JStr ''0''), (''target'', JStr ''4''),
            (''targetHandle'', JNull), (''type'', JStr ''default''),
            (''markerEnd'', JObj [(''type'', JStr ''arrowclosed'')])]]"

text \<open>
  A node of the canvas whose configuration holds the token limit that
  \<^verbatim>\<open>NodeInspector\<close> writes: \<^verbatim>\<open>Number.parseInt\<close> of the input field, which is
  \<^verbatim>\<open>NaN\<close> when the field is empty.
\<close>

definition llm_node :: "jsval \<Rightarrow> jsval" where
  "llm_node maxTokens =
     JObj [(''id'', JStr ''5''), (''type'', JStr ''workflow''),
           (''position'', JObj [(''x'', JNum (Finite 250)), (''y'', JNum (Finite 300))]),
           (''data'', JObj [(''label'', JStr ''LLM Response''), (''type'', JStr ''action''),
                            (''nodeType'', JStr ''llm''),
                            (''config'', JObj [(''model'', JStr ''gpt-4''),
                                               (''maxTokens'', maxTokens)])])]"

text \<open>A workflow whose \<^verbatim>\<open>createdAt\<close> is the empty string, as current workflow.\<close>

definition undated_workflow :: workflow where
  "undated_workflow =
     \<lparr> wf_id = ''workflow-3'', name = ''Draft'', description = [], nodes = [], edges = [],
       outputs = JNum (Finite 1), createdAt = [], updatedAt = [] \<rparr>"

definition undated_state :: provider_state where
  "undated_state =
     \<lparr> currentWorkflow = Some undated_workflow, workflows = [undated_workflow],
       workflowRuns = [], isRunning = False, localStorage = Map.empty \<rparr>"

section \<open>Properties of the provider\<close>

lemma find_id_None: "wid \<notin> wf_id ` set ws \<Longrightarrow> find (\<lambda>w. wf_id w = wid) ws = None"
  by (auto simp: find_None_iff)

lemma find_id_Some:
  "wid \<in> wf_id ` set ws \<Longrightarrow> \<exists>w. find (\<lambda>w. wf_id w = wid) ws = Some w \<and> w \<in> set ws \<and> wf_id w = wid"
  by (cases "find (\<lambda>w. wf_id w = wid) ws") (auto simp: find_None_iff find_Some_iff)

lemma runWorkflow_start_absent:
  "wid \<notin> wf_id ` set (workflows s) \<Longrightarrow> runWorkflow_start wid ms now s = (s, None)"
  by (simp add: runWorkflow_start_def find_id_None)

lemma runWorkflow_start_present:
  assumes "find (\<lambda>w. wf_id w = wid) (workflows s) = Some w"
  shows "runWorkflow_start wid ms now s =
           (s\<lparr> isRunning := True, workflowRuns := workflowRuns s @ [new_run wid ms now w] \<rparr>,
            Some (new_run wid ms now w))"
  using assms by (simp add: runWorkflow_start_def Let_def)

lemma new_run_simps [simp]:
  "run_id (new_run wid ms now w) = ''run-'' @ decimal ms"
  "workflowId (new_run wid ms now w) = wid"
  "status (new_run wid ms now w) = Running"
  "startedAt (new_run wid ms now w) = now"
  "completedAt (new_run wid ms now w) = None"
  "logs (new_run wid ms now w) = [''Starting workflow: '' @ name w]"
  "result (new_run wid ms now w) = None"
  by (simp_all add: new_run_def)

lemma runWorkflow_finish_eq:
  "runWorkflow_finish run now s =
     s\<lparr> workflowRuns := replace_run (completedRun run now) (workflowRuns s), isRunning := False \<rparr>"
  by (simp add: runWorkflow_finish_def simulate_execution_def)

lemma example_find_1 [simp]:
  "find (\<lambda>w. wf_id w = ''workflow-1'') (workflows example_state) = Some branching_workflow"
  by (simp add: example_state_def branching_workflow_def)

lemma example_find_2 [simp]:
  "find (\<lambda>w. wf_id w = ''workflow-2'') (workflows example_state) = Some dangling_workflow"
  by (simp add: example_state_def branching_workflow_def dangling_workflow_def)

lemma decimal_5 [simp]: "decimal 5 = ''5''"
  by (simp add: decimal.simps digit_def)

lemma example_workflow_simps [simp]:
  "wf_id branching_workflow = ''workflow-1''" "name branching_workflow = ''Notify''"
  "createdAt branching_workflow = ''2025-01-01T00:00:00.000Z''"
  "wf_id dangling_workflow = ''workflow-2''" "name dangling_workflow = ''Broken''"
  "createdAt dangling_workflow = ''2025-01-02T00:00:00.000Z''"
  by (simp_all add: branching_workflow_def dangling_workflow_def)

lemma example_app_start_1:
  "step (RunStart ''workflow-1'' 5 ''t'') example_app =
     \<lparr> provider = \<lparr> currentWorkflow = None, workflows = [branching_workflow, dangling_workflow],
                     workflowRuns = [new_run ''workflow-1'' 5 ''t'' branching_workflow],
                     isRunning = True, localStorage = Map.empty \<rparr>,
       pending = [new_run ''workflow-1'' 5 ''t'' branching_workflow] \<rparr>"
  by (simp add: example_app_def mounted_def step_def runWorkflow_start_def Let_def)

text \<open>
  C9. Called with a workflow id that no workflow of the store has, \<^verbatim>\<open>runWorkflow\<close>
  returns at once: it creates no run, the whole provider state (the run list and
  \<^verbatim>\<open>isRunning\<close> included) is what it was, and nothing is thrown or reported.
\<close>

theorem runWorkflow_absent_id_no_effect:
  assumes "wid \<notin> wf_id ` set (workflows s)"
  shows "runWorkflow_start wid ms now s = (s, None) \<and> runWorkflow wid ms now now' s = s"
  using assms by (simp add: runWorkflow_def runWorkflow_start_absent)

theorem runWorkflow_absent_id_no_effect_witness:
  "runWorkflow_start ''workflow-7'' 5 ''t'' example_state = (example_state, None)
   \<and> runWorkflow ''workflow-7'' 5 ''t'' ''u'' example_state = example_state"
proof -
  have "''workflow-7'' \<notin> wf_id ` set (workflows example_state)"
    by (simp add: example_state_def branching_workflow_def dangling_workflow_def)
  from runWorkflow_absent_id_no_effect [OF this] show ?thesis .
qed

text \<open>
  C8. A run never changes a workflow: the first part of \<^verbatim>\<open>runWorkflow\<close>, its second
  part and the whole call leave the list of workflows (with their nodes, edges and node
  data), the current workflow and the storage exactly as they were.
\<close>

theorem runWorkflow_preserves_workflows:
  "workflows (fst (runWorkflow_start wid ms now s)) = workflows s
   \<and> currentWorkflow (fst (runWorkflow_start wid ms now s)) = currentWorkflow s
   \<and> localStorage (fst (runWorkflow_start wid ms now s)) = localStorage s
   \<and> workflows (runWorkflow_finish run now' s) = workflows s
   \<and> currentWorkflow (runWorkflow_finish run now' s) = currentWorkflow s
   \<and> localStorage (runWorkflow_finish run now' s) = localStorage s
   \<and> workflows (runWorkflow wid ms now now' s) = workflows s
   \<and> currentWorkflow (runWorkflow wid ms now now' s) = currentWorkflow s
   \<and> localStorage (runWorkflow wid ms now now' s) = localStorage s"
  by (cases "find (\<lambda>w. wf_id w = wid) (workflows s)")
     (simp_all add: runWorkflow_def runWorkflow_start_def runWorkflow_finish_eq Let_def)

theorem runWorkflow_preserves_workflows_witness:
  "workflows (runWorkflow ''workflow-1'' 5 ''t'' ''u'' example_state)
     = [branching_workflow, dangling_workflow]
   \<and> currentWorkflow (runWorkflow ''workflow-1'' 5 ''t'' ''u'' example_state)
     = Some branching_workflow"
  using runWorkflow_preserves_workflows [of "''workflow-1''" 5 "''t''" example_state undefined "''u''"]
  by (simp add: example_state_def)

text \<open>
  C4. For a workflow of the store, one call of \<^verbatim>\<open>runWorkflow\<close> comes to its end: the
  run it appended is the last entry of the run list and is completed, and
  \<^verbatim>\<open>isRunning\<close> is false again. The model has no loop and dispatches no node, and its
  second part, whenever the timer fires, leaves every entry that has the run's id completed.
\<close>

theorem runWorkflow_reaches_completed:
  assumes "wid \<in> wf_id ` set (workflows s)"
  shows "workflowRuns (runWorkflow wid ms now now' s) \<noteq> []
         \<and> run_id (last (workflowRuns (runWorkflow wid ms now now' s))) = ''run-'' @ decimal ms
         \<and> workflowId (last (workflowRuns (runWorkflow wid ms now now' s))) = wid
         \<and> status (last (workflowRuns (runWorkflow wid ms now now' s))) = Completed
         \<and> completedAt (last (workflowRuns (runWorkflow wid ms now now' s))) = Some now'
         \<and> isRunning (runWorkflow wid ms now now' s) = False
         \<and> list_all (\<lambda>r. run_id r \<noteq> run_id run \<or> status r = Completed)
              (workflowRuns (runWorkflow_finish run now' s'))"
proof -
  from find_id_Some [OF assms] obtain w where "find (\<lambda>w. wf_id w = wid) (workflows s) = Some w"
    by blast
  then have "runWorkflow wid ms now now' s =
      runWorkflow_finish (new_run wid ms now w) now'
        (s\<lparr> isRunning := True, workflowRuns := workflowRuns s @ [new_run wid ms now w] \<rparr>)"
    by (simp add: runWorkflow_def runWorkflow_start_present)
  then have a: "workflowRuns (runWorkflow wid ms now now' s) \<noteq> []
         \<and> run_id (last (workflowRuns (runWorkflow wid ms now now' s))) = ''run-'' @ decimal ms
         \<and> workflowId (last (workflowRuns (runWorkflow wid ms now now' s))) = wid
         \<and> status (last (workflowRuns (runWorkflow wid ms now now' s))) = Completed
         \<and> completedAt (last (workflowRuns (runWorkflow wid ms now now' s))) = Some now'
         \<and> isRunning (runWorkflow wid ms now now' s) = False"
    by (simp add: runWorkflow_finish_eq replace_run_def completedRun_def)
  have b: "list_all (\<lambda>r. run_id r \<noteq> run_id run \<or> status r = Completed)
              (workflowRuns (runWorkflow_finish run now' s'))"
    by (auto simp: runWorkflow_finish_eq replace_run_def completedRun_def list_all_iff)
  from a b show ?thesis by blast
qed

theorem runWorkflow_reaches_completed_witness:
  "status (last (workflowRuns (runWorkflow ''workflow-1'' 5 ''t'' ''u'' example_state))) = Completed
   \<and> isRunning (runWorkflow ''workflow-1'' 5 ''t'' ''u'' example_state) = False"
proof -
  have "''workflow-1'' \<in> wf_id ` set (workflows example_state)"
    by (simp add: example_state_def branching_workflow_def)
  from runWorkflow_reaches_completed [OF this, of 5 "''t''" "''u''"] show ?thesis by blast
qed

text \<open>
  C1 as amended. \<^verbatim>\<open>runWorkflow\<close> validates nothing and has no error to return: for
  every workflow id of the store, whatever the nodes and edges of the workflow, it appends
  exactly one run in status \<^verbatim>\<open>running\<close> to the run list and sets \<^verbatim>\<open>isRunning\<close>.
  It creates no run exactly when no workflow of the store has the id.
\<close>

theorem runWorkflow_creates_run_unvalidated:
  "(snd (runWorkflow_start wid ms now s) = None \<longleftrightarrow> wid \<notin> wf_id ` set (workflows s))
   \<and> (\<forall>w. find (\<lambda>w. wf_id w = wid) (workflows s) = Some w \<longrightarrow>
          (\<exists>run. runWorkflow_start wid ms now s =
                   (s\<lparr> isRunning := True, workflowRuns := workflowRuns s @ [run] \<rparr>, Some run)
                \<and> status run = Running \<and> workflowId run = wid
                \<and> logs run = [''Starting workflow: '' @ name w]))"
proof -
  have "snd (runWorkflow_start wid ms now s) = None \<longleftrightarrow> wid \<notin> wf_id ` set (workflows s)"
  proof (cases "wid \<in> wf_id ` set (workflows s)")
    case True
    from find_id_Some [OF this] obtain w where "find (\<lambda>w. wf_id w = wid) (workflows s) = Some w"
      by blast
    with True show ?thesis by (simp add: runWorkflow_start_present)
  next
    case False
    then show ?thesis by (simp add: runWorkflow_start_absent)
  qed
  then show ?thesis by (simp add: runWorkflow_start_present)
qed

theorem runWorkflow_creates_run_unvalidated_witness:
  "snd (runWorkflow_start ''workflow-2'' 5 ''t'' example_state) \<noteq> None
   \<and> (\<exists>run. runWorkflow_start ''workflow-2'' 5 ''t'' example_state =
            (example_state\<lparr> isRunning := True,
                             workflowRuns := workflowRuns example_state @ [run] \<rparr>, Some run)
         \<and> status run = Running \<and> workflowId run = ''workflow-2''
         \<and> logs run = [''Starting workflow: '' @ name dangling_workflow])"
proof -
  have "''workflow-2'' \<in> wf_id ` set (workflows example_state)"
    by (simp add: example_state_def)
  with runWorkflow_creates_run_unvalidated [of "''workflow-2''" 5 "''t''" example_state]
    example_find_2
  show ?thesis by blast
qed

text \<open>
  C1 as stated fails: the workflow with the dangling edge is in the store, and calling
  \<^verbatim>\<open>runWorkflow\<close> on it creates a run and records it in the run list.
\<close>

theorem runWorkflow_validation_counterexample:
  "dangling_edges dangling_workflow = [example_edge ''1'' ''9'']
   \<and> workflowRuns example_state = []
   \<and> snd (runWorkflow_start ''workflow-2'' 5 ''t'' example_state) \<noteq> None
   \<and> length (workflowRuns (fst (runWorkflow_start ''workflow-2'' 5 ''t'' example_state))) = 1
   \<and> map status (workflowRuns (runWorkflow ''workflow-2'' 5 ''t'' ''u'' example_state)) = [Completed]"
proof -
  have "dangling_edges dangling_workflow = [example_edge ''1'' ''9'']"
    by (simp add: dangling_edges_def dangling_workflow_def example_edge_def example_node_def
        prop_of_def get_prop_def)
  moreover have "workflowRuns example_state = []"
    by (simp add: example_state_def)
  ultimately show ?thesis
    by (simp add: runWorkflow_def runWorkflow_start_present [OF example_find_2]
        runWorkflow_finish_eq replace_run_def completedRun_def)
qed

lemma saveWorkflow_runs [simp]:
  "workflowRuns (fst (saveWorkflow nm descr ns es outs now ms s)) = workflowRuns s"
  by (simp add: saveWorkflow_def Let_def split: sum.splits)

lemma saveWorkflow_state:
  "workflows (fst (saveWorkflow nm descr ns es outs now ms s))
     = upsert_workflow (new_workflow (currentWorkflow s) nm descr ns es outs now ms) (workflows s)
   \<and> currentWorkflow (fst (saveWorkflow nm descr ns es outs now ms s))
     = Some (new_workflow (currentWorkflow s) nm descr ns es outs now ms)"
  by (simp add: saveWorkflow_def Let_def split: sum.splits)

lemma loadWorkflow_runs [simp]: "workflowRuns (fst (loadWorkflow wid s)) = workflowRuns s"
  by (simp add: loadWorkflow_def split: sum.splits jsval.splits option.splits)

lemma deleteWorkflow_runs [simp]: "workflowRuns (fst (deleteWorkflow wid s)) = workflowRuns s"
  by (simp add: deleteWorkflow_def Let_def split: sum.splits jsval.splits option.splits)

lemma replace_run_ids [simp]: "map run_id (replace_run r rs) = map run_id rs"
  by (simp add: replace_run_def)

lemma replace_run_length [simp]: "length (replace_run r rs) = length rs"
  by (simp add: replace_run_def)

lemma replace_run_nth:
  "i < length rs \<Longrightarrow> replace_run r rs ! i = (if run_id (rs ! i) = run_id r then r else rs ! i)"
  by (simp add: replace_run_def)

lemma completedRun_id [simp]: "run_id (completedRun r now) = run_id r"
  by (simp add: completedRun_def)

lemma step_other_runs:
  "\<not> (\<exists>wid ms now. e = RunStart wid ms now) \<Longrightarrow> \<not> (\<exists>k now. e = RunFinish k now) \<Longrightarrow>
   runs (step e a) = runs a \<and> pending (step e a) = pending a"
  by (cases e) (simp_all add: step_def)

lemma step_start_absent:
  "find (\<lambda>w. wf_id w = wid) (workflows (provider a)) = None \<Longrightarrow> step (RunStart wid ms now) a = a"
  by (simp add: step_def runWorkflow_start_def)

lemma step_start_present:
  "find (\<lambda>w. wf_id w = wid) (workflows (provider a)) = Some w \<Longrightarrow>
   step (RunStart wid ms now) a =
     \<lparr> provider = (provider a)\<lparr> isRunning := True,
                                 workflowRuns := runs a @ [new_run wid ms now w] \<rparr>,
       pending = pending a @ [new_run wid ms now w] \<rparr>"
  by (simp add: step_def runWorkflow_start_present)

lemma step_finish:
  "k < length (pending a) \<Longrightarrow>
   runs (step (RunFinish k now) a) = replace_run (completedRun (pending a ! k) now) (runs a)"
  by (simp add: step_def runWorkflow_finish_eq)

lemma step_finish_late: "\<not> k < length (pending a) \<Longrightarrow> step (RunFinish k now) a = a"
  by (simp add: step_def)

lemma saveWorkflow_isRunning [simp]:
  "isRunning (fst (saveWorkflow nm descr ns es outs now ms s)) = isRunning s"
  by (simp add: saveWorkflow_def Let_def split: sum.splits)

lemma loadWorkflow_isRunning [simp]: "isRunning (fst (loadWorkflow wid s)) = isRunning s"
  by (simp add: loadWorkflow_def split: sum.splits jsval.splits option.splits)

lemma deleteWorkflow_isRunning [simp]: "isRunning (fst (deleteWorkflow wid s)) = isRunning s"
  by (simp add: deleteWorkflow_def Let_def split: sum.splits jsval.splits option.splits)

lemma step_gated_inv:
  assumes "one_run a" "gated e a"
  shows "one_run (step e a)"
proof (cases e)
  case (RunStart wid ms now)
  show ?thesis
  proof (cases "find (\<lambda>w. wf_id w = wid) (workflows (provider a))")
    case None
    with RunStart assms show ?thesis by (simp add: step_start_absent)
  next
    case (Some w)
    from assms RunStart have "pending a = []"
      by (auto simp: one_run_def gated_def)
    with assms show ?thesis
      unfolding RunStart step_start_present [OF Some]
      by (auto simp: one_run_def list_all_iff)
  qed
next
  case (RunFinish k now)
  show ?thesis
  proof (cases "k < length (pending a)")
    case False
    with RunFinish assms show ?thesis by (simp add: step_finish_late)
  next
    case True
    with assms obtain r where r: "pending a = [r]" "k = 0"
      by (cases "pending a") (auto simp: one_run_def)
    have "step e a = \<lparr> provider = runWorkflow_finish r now (provider a), pending = [] \<rparr>"
      using RunFinish r by (simp add: step_def)
    with assms r show ?thesis
      by (auto simp: one_run_def list_all_iff runWorkflow_finish_eq replace_run_def completedRun_def)
  qed
qed (use assms in \<open>simp_all add: one_run_def step_def\<close>)

lemma mounted_one_run: "one_run (mounted ws st)"
  by (simp add: one_run_def mounted_def)

lemma exec_gated_inv: "one_run a \<Longrightarrow> gated_run evs a \<Longrightarrow> one_run (exec evs a)"
  by (induction evs arbitrary: a) (simp_all add: step_gated_inv)

lemma step_running_log:
  assumes "one_run a" "i < length (runs a)" "status (runs a ! i) = Running"
  shows "i < length (runs (step e a))
         \<and> run_id (runs (step e a) ! i) = run_id (runs a ! i)
         \<and> prefix (logs (runs a ! i)) (logs (runs (step e a) ! i))"
proof (cases e)
  case (RunStart wid ms now)
  with assms show ?thesis
    by (cases "find (\<lambda>w. wf_id w = wid) (workflows (provider a))")
       (simp_all add: step_start_absent step_start_present nth_append)
next
  case (RunFinish k now)
  show ?thesis
  proof (cases "k < length (pending a)")
    case False
    with RunFinish assms show ?thesis by (simp add: step_finish_late)
  next
    case True
    with assms(1) obtain r where r: "pending a = [r]" "k = 0"
      by (cases "pending a") (auto simp: one_run_def)
    from assms have "runs a ! i \<in> set (pending a)"
      by (auto simp: one_run_def list_all_length)
    with r have "runs a ! i = r" by simp
    with assms(2) r show ?thesis
      unfolding RunFinish step_finish [OF True]
      by (simp add: replace_run_nth completedRun_def)
  qed
qed (use assms in \<open>simp_all add: step_def\<close>)

text \<open>
  C7. In every execution that the toolbar's gate allows, a run that is in status
  \<^verbatim>\<open>running\<close> keeps its place in the run list and its id across every step of the
  provider, and its log before the step is a prefix of its log after the step: entries are
  only appended.
\<close>

theorem running_log_append_only:
  assumes "gated_run evs (mounted ws st)"
    and "i < length (runs (exec evs (mounted ws st)))"
    and "status (runs (exec evs (mounted ws st)) ! i) = Running"
  shows "i < length (runs (step e (exec evs (mounted ws st))))
         \<and> run_id (runs (step e (exec evs (mounted ws st))) ! i)
             = run_id (runs (exec evs (mounted ws st)) ! i)
         \<and> prefix (logs (runs (exec evs (mounted ws st)) ! i))
                  (logs (runs (step e (exec evs (mounted ws st))) ! i))"
  using step_running_log [OF exec_gated_inv [OF mounted_one_run assms(1)] assms(2,3)] .

lemma saved_workflow:
  "new_workflow None ''Digest'' ''Daily digest'' [] [] (JNum (Finite 1)) ''2025-03-01T09:00:00.000Z'' 5
     = \<lparr> wf_id = ''workflow-5'', name = ''Digest'', description = ''Daily digest'', nodes = [],
         edges = [], outputs = JNum (Finite 1), createdAt = ''2025-03-01T09:00:00.000Z'',
         updatedAt = ''2025-03-01T09:00:00.000Z'' \<rparr>"
  by (simp add: new_workflow_def or_else_def)

lemma saved_and_started_state:
  "gated_run saved_and_started example_app
   \<and> runs (exec saved_and_started example_app)
       = [new_run ''workflow-5'' 6 ''2025-03-01T09:00:01.000Z''
            (new_workflow None ''Digest'' ''Daily digest'' [] [] (JNum (Finite 1))
               ''2025-03-01T09:00:00.000Z'' 5)]
   \<and> pending (exec saved_and_started example_app)
       = [new_run ''workflow-5'' 6 ''2025-03-01T09:00:01.000Z''
            (new_workflow None ''Digest'' ''Daily digest'' [] [] (JNum (Finite 1))
               ''2025-03-01T09:00:00.000Z'' 5)]"
proof -
  let ?a1 = "step (Save ''Digest'' ''Daily digest'' [] [] (JNum (Finite 1))
                     ''2025-03-01T09:00:00.000Z'' 5) example_app"
  let ?w = "new_workflow None ''Digest'' ''Daily digest'' [] [] (JNum (Finite 1))
              ''2025-03-01T09:00:00.000Z'' 5"
  have p: "currentWorkflow (provider ?a1) = Some ?w"
          "workflows (provider ?a1) = [branching_workflow, dangling_workflow, ?w]"
          "isRunning (provider ?a1) = False" "runs ?a1 = []" "pending ?a1 = []"
    by (simp_all add: step_def example_app_def mounted_def saveWorkflow_state upsert_workflow_def
        saved_workflow)
  have f: "find (\<lambda>w. wf_id w = ''workflow-5'') (workflows (provider ?a1)) = Some ?w"
    by (simp add: p saved_workflow)
  show ?thesis
    unfolding saved_and_started_def
    by (simp add: gated_def step_start_present [OF f] p) (simp add: saved_workflow)
qed

theorem running_log_append_only_witness:
  "gated_run saved_and_started example_app
   \<and> status (runs (exec saved_and_started example_app) ! 0) = Running
   \<and> logs (runs (exec saved_and_started example_app) ! 0) = [''Starting workflow: Digest'']
   \<and> prefix [''Starting workflow: Digest'']
        (logs (runs (step (RunFinish 0 ''2025-03-01T09:00:03.000Z'')
                      (exec saved_and_started example_app)) ! 0))"
proof -
  have g: "gated_run saved_and_started (mounted [branching_workflow, dangling_workflow] Map.empty)"
    and l: "0 < length (runs (exec saved_and_started
                  (mounted [branching_workflow, dangling_workflow] Map.empty)))"
    and r: "status (runs (exec saved_and_started
                  (mounted [branching_workflow, dangling_workflow] Map.empty)) ! 0) = Running"
    using saved_and_started_state by (simp_all add: example_app_def)
  from running_log_append_only [OF g l r, of "RunFinish 0 ''2025-03-01T09:00:03.000Z''"]
    saved_and_started_state
  show ?thesis
    by (simp add: example_app_def [symmetric] saved_workflow)
qed

lemma step_status:
  assumes "i < length (runs a)"
  shows "i < length (runs (step e a))
         \<and> (status (runs (step e a) ! i) = status (runs a ! i)
              \<or> status (runs (step e a) ! i) = Completed)"
proof (cases e)
  case (RunStart wid ms now)
  with assms show ?thesis
    by (cases "find (\<lambda>w. wf_id w = wid) (workflows (provider a))")
       (simp_all add: step_start_absent step_start_present nth_append)
next
  case (RunFinish k now)
  with assms show ?thesis
    by (cases "k < length (pending a)")
       (auto simp: step_finish step_finish_late replace_run_nth completedRun_def)
qed (use assms in \<open>simp_all add: step_def\<close>)

lemma step_new_runs:
  assumes "length (runs a) \<le> i" "i < length (runs (step e a))"
  shows "status (runs (step e a) ! i) = Running"
proof (cases e)
  case (RunStart wid ms now)
  with assms show ?thesis
    by (cases "find (\<lambda>w. wf_id w = wid) (workflows (provider a))")
       (auto simp: step_start_absent step_start_present nth_append less_Suc_eq)
next
  case (RunFinish k now)
  with assms show ?thesis
    by (cases "k < length (pending a)") (auto simp: step_finish step_finish_late)
qed (use assms in \<open>simp_all add: step_def\<close>)

lemma step_no_failed: "no_failed a \<Longrightarrow> no_failed (step e a)"
proof (cases e)
  case (RunStart wid ms now)
  assume "no_failed a"
  with RunStart show ?thesis
    by (cases "find (\<lambda>w. wf_id w = wid) (workflows (provider a))")
       (simp_all add: step_start_absent step_start_present no_failed_def)
next
  case (RunFinish k now)
  assume "no_failed a"
  with RunFinish show ?thesis
    by (cases "k < length (pending a)")
       (auto simp: step_finish step_finish_late no_failed_def list_all_iff replace_run_def
          completedRun_def)
qed (simp_all add: step_def no_failed_def)

lemma exec_no_failed: "no_failed a \<Longrightarrow> no_failed (exec evs a)"
  by (induction evs arbitrary: a) (simp_all add: step_no_failed)

lemma mounted_no_failed: "no_failed (mounted ws st)"
  by (simp add: no_failed_def mounted_def)

text \<open>
  C2 as amended. A run has one of the statuses \<^verbatim>\<open>running\<close>,
  \<^verbatim>\<open>completed\<close> and \<^verbatim>\<open>failed\<close>; there is no pending and no cancelled status.
  In every state reachable from mounting, each run of the list is running or completed
  (the branch that sets \<^verbatim>\<open>failed\<close> is never taken, since the awaited timer always
  resolves); across every step a running run stays running or becomes completed, a
  completed run stays completed, and every run the step appends is running.
\<close>

theorem run_status_machine:
  "(\<forall>i < length (runs (exec evs (mounted ws st))).
      i < length (runs (step e (exec evs (mounted ws st))))
      \<and> (status (runs (exec evs (mounted ws st)) ! i) = Running
           \<and> (status (runs (step e (exec evs (mounted ws st))) ! i) = Running
               \<or> status (runs (step e (exec evs (mounted ws st))) ! i) = Completed)
          \<or> status (runs (exec evs (mounted ws st)) ! i) = Completed
           \<and> status (runs (step e (exec evs (mounted ws st))) ! i) = Completed))
   \<and> (\<forall>i. length (runs (exec evs (mounted ws st))) \<le> i
          \<and> i < length (runs (step e (exec evs (mounted ws st))))
          \<longrightarrow> status (runs (step e (exec evs (mounted ws st))) ! i) = Running)"
proof -
  let ?a = "exec evs (mounted ws st)"
  have nf: "no_failed ?a" by (rule exec_no_failed [OF mounted_no_failed])
  have "status (runs ?a ! i) = Running \<or> status (runs ?a ! i) = Completed"
    if "i < length (runs ?a)" for i
    using nf that by (simp add: no_failed_def list_all_length)
  then show ?thesis
    using step_status [of _ ?a e] step_new_runs [of ?a _ e] by metis
qed

theorem run_status_machine_witness:
  "status (runs (exec [RunStart ''workflow-1'' 5 ''t''] example_app) ! 0) = Running
   \<and> status (runs (step (RunFinish 0 ''u'') (exec [RunStart ''workflow-1'' 5 ''t''] example_app)) ! 0)
       = Completed
   \<and> status (runs (step (RunFinish 0 ''v'')
        (step (RunFinish 0 ''u'') (exec [RunStart ''workflow-1'' 5 ''t''] example_app))) ! 0)
       = Completed"
  using run_status_machine [of "[RunStart ''workflow-1'' 5 ''t'']"
      "[branching_workflow, dangling_workflow]" Map.empty "RunFinish 0 ''u''"]
  by (simp add: example_app_def [symmetric] example_app_start_1)
     (simp add: step_def runWorkflow_finish_eq replace_run_def completedRun_def)

text \<open>
  C2 as stated fails: the run that \<^verbatim>\<open>runWorkflow\<close> creates has status
  \<^verbatim>\<open>running\<close> from the start, and no status is called pending or cancelled.
\<close>

theorem run_status_counterexample:
  "map (\<lambda>r. status_name (status r))
       (workflowRuns (fst (runWorkflow_start ''workflow-1'' 5 ''t'' example_state))) = [''running'']
   \<and> ''running'' \<noteq> ''pending''
   \<and> (\<forall>st. status_name st \<noteq> ''pending'' \<and> status_name st \<noteq> ''cancelled'')"
proof -
  have "status_name st \<noteq> ''pending'' \<and> status_name st \<noteq> ''cancelled''" for st
    by (cases st) simp_all
  then show ?thesis
    by (simp add: runWorkflow_start_present [OF example_find_1]) (simp add: example_state_def)
qed

lemma upsert_append: "wf_id w \<notin> wf_id ` set ws \<Longrightarrow> upsert_workflow w ws = ws @ [w]"
  by (simp add: upsert_workflow_def find_id_None)

lemma upsert_map:
  "wf_id w \<in> wf_id ` set ws \<Longrightarrow>
   upsert_workflow w ws = map (\<lambda>x. if wf_id x = wf_id w then w else x) ws"
  using find_id_Some [of "wf_id w" ws] by (auto simp: upsert_workflow_def)

lemma upsert_replace:
  assumes "distinct (map wf_id ws)" "i < length ws" "wf_id (ws ! i) = wf_id w"
  shows "upsert_workflow w ws = ws[i := w]"
proof -
  from assms have "wf_id w \<in> wf_id ` set ws" by (metis imageI nth_mem)
  then have u: "upsert_workflow w ws = map (\<lambda>x. if wf_id x = wf_id w then w else x) ws"
    by (rule upsert_map)
  show ?thesis
  proof (rule nth_equalityI)
    show "length (upsert_workflow w ws) = length (ws[i := w])" by (simp add: u)
  next
    fix j assume "j < length (upsert_workflow w ws)"
    then have j: "j < length ws" by (simp add: u)
    have "j = i" if "wf_id (ws ! j) = wf_id w"
    proof -
      from that assms(3) have "wf_id (ws ! j) = wf_id (ws ! i)" by simp
      with nth_eq_iff_index_eq [OF assms(1), of j i] j assms(2) show ?thesis by simp
    qed
    with j assms show "upsert_workflow w ws ! j = ws[i := w] ! j"
      by (auto simp: u nth_list_update)
  qed
qed

lemma upsert_distinct: "distinct (map wf_id ws) \<Longrightarrow> distinct (map wf_id (upsert_workflow w ws))"
proof (cases "wf_id w \<in> wf_id ` set ws")
  case True
  assume "distinct (map wf_id ws)"
  moreover have "map wf_id (upsert_workflow w ws) = map wf_id ws"
    by (simp add: upsert_map [OF True])
  ultimately show ?thesis by simp
next
  case False
  assume "distinct (map wf_id ws)"
  with False show ?thesis by (simp add: upsert_append)
qed

text \<open>
  C10 as amended. \<^verbatim>\<open>saveWorkflow\<close> keeps the ids of the workflow list distinct. It
  saves under the id of the current workflow, or under \<^verbatim>\<open>workflow-<ms>\<close> when there
  is no current workflow or its id is empty. When an entry of the list has that id, the
  entry is replaced in place and the list is otherwise unchanged (same length); when none
  has, exactly one entry is appended. The saved entry's \<^verbatim>\<open>createdAt\<close> is that of the
  current workflow when it is a non-empty string, and the time of the save otherwise.
\<close>

theorem saveWorkflow_keeps_ids_distinct:
  assumes "distinct (map wf_id (workflows s))"
  shows "distinct (map wf_id (workflows (fst (saveWorkflow nm descr ns es outs now ms s))))
    \<and> (wf_id (new_workflow (currentWorkflow s) nm descr ns es outs now ms)
          \<in> wf_id ` set (workflows s) \<longrightarrow>
        (\<exists>i < length (workflows s).
           wf_id (workflows s ! i) = wf_id (new_workflow (currentWorkflow s) nm descr ns es outs now ms)
           \<and> workflows (fst (saveWorkflow nm descr ns es outs now ms s))
               = (workflows s)[i := new_workflow (currentWorkflow s) nm descr ns es outs now ms]))
    \<and> (wf_id (new_workflow (currentWorkflow s) nm descr ns es outs now ms)
          \<notin> wf_id ` set (workflows s) \<longrightarrow>
        workflows (fst (saveWorkflow nm descr ns es outs now ms s))
          = workflows s @ [new_workflow (currentWorkflow s) nm descr ns es outs now ms])
    \<and> wf_id (new_workflow (currentWorkflow s) nm descr ns es outs now ms)
        = (case currentWorkflow s of
             None \<Rightarrow> ''workflow-'' @ decimal ms
           | Some cw \<Rightarrow> if wf_id cw = [] then ''workflow-'' @ decimal ms else wf_id cw)
    \<and> createdAt (new_workflow (currentWorkflow s) nm descr ns es outs now ms)
        = (case currentWorkflow s of
             None \<Rightarrow> now
           | Some cw \<Rightarrow> if createdAt cw = [] then now else createdAt cw)"
proof -
  let ?w = "new_workflow (currentWorkflow s) nm descr ns es outs now ms"
  have 1: "distinct (map wf_id (workflows (fst (saveWorkflow nm descr ns es outs now ms s))))"
    using assms by (simp add: saveWorkflow_state upsert_distinct)
  have 2: "\<exists>i < length (workflows s). wf_id (workflows s ! i) = wf_id ?w
             \<and> workflows (fst (saveWorkflow nm descr ns es outs now ms s)) = (workflows s)[i := ?w]"
    if "wf_id ?w \<in> wf_id ` set (workflows s)"
  proof -
    from that obtain i where "i < length (workflows s)" "wf_id (workflows s ! i) = wf_id ?w"
      by (auto simp: in_set_conv_nth)
    with upsert_replace [OF assms this] show ?thesis
      by (auto simp: saveWorkflow_state)
  qed
  have 3: "workflows (fst (saveWorkflow nm descr ns es outs now ms s)) = workflows s @ [?w]"
    if "wf_id ?w \<notin> wf_id ` set (workflows s)"
    using that by (simp add: saveWorkflow_state upsert_append)
  have 4: "wf_id ?w = (case currentWorkflow s of
             None \<Rightarrow> ''workflow-'' @ decimal ms
           | Some cw \<Rightarrow> if wf_id cw = [] then ''workflow-'' @ decimal ms else wf_id cw)"
    by (simp add: new_workflow_def or_else_def split: option.splits)
  have 5: "createdAt ?w = (case currentWorkflow s of
             None \<Rightarrow> now
           | Some cw \<Rightarrow> if createdAt cw = [] then now else createdAt cw)"
    by (simp add: new_workflow_def or_else_def split: option.splits)
  from 1 2 3 4 5 show ?thesis by blast
qed

theorem saveWorkflow_keeps_ids_distinct_witness:
  "map wf_id (workflows (fst (saveWorkflow ''Renamed'' ''d'' [] [] (JNum (Finite 1))
       ''2025-02-02T00:00:00.000Z'' 7 example_state))) = [''workflow-1'', ''workflow-2'']
   \<and> map createdAt (workflows (fst (saveWorkflow ''Renamed'' ''d'' [] [] (JNum (Finite 1))
       ''2025-02-02T00:00:00.000Z'' 7 example_state)))
       = [''2025-01-01T00:00:00.000Z'', ''2025-01-02T00:00:00.000Z'']
   \<and> map name (workflows (fst (saveWorkflow ''Renamed'' ''d'' [] [] (JNum (Finite 1))
       ''2025-02-02T00:00:00.000Z'' 7 example_state))) = [''Renamed'', ''Broken'']"
proof -
  have d: "distinct (map wf_id (workflows example_state))"
    by (simp add: example_state_def)
  have w: "new_workflow (currentWorkflow example_state) ''Renamed'' ''d'' [] [] (JNum (Finite 1))
             ''2025-02-02T00:00:00.000Z'' 7
           = \<lparr> wf_id = ''workflow-1'', name = ''Renamed'', description = ''d'', nodes = [],
                edges = [], outputs = JNum (Finite 1), createdAt = ''2025-01-01T00:00:00.000Z'',
                updatedAt = ''2025-02-02T00:00:00.000Z'' \<rparr>"
    by (simp add: new_workflow_def or_else_def example_state_def)
  have ws: "workflows example_state = [branching_workflow, dangling_workflow]"
    by (simp add: example_state_def)
  from saveWorkflow_keeps_ids_distinct [OF d, of "''Renamed''" "''d''" "[]" "[]" "JNum (Finite 1)"
      "''2025-02-02T00:00:00.000Z''" 7]
  show ?thesis
    unfolding w ws by (auto simp: less_Suc_eq)
qed

text \<open>
  C10 as stated fails on the creation time: saving the current workflow, which is the only
  entry of the list and whose \<^verbatim>\<open>createdAt\<close> is the empty string, replaces the entry
  under its id and gives it the time of the save as \<^verbatim>\<open>createdAt\<close>.
\<close>

theorem saveWorkflow_createdAt_counterexample:
  "distinct (map wf_id (workflows undated_state))
   \<and> map wf_id (workflows undated_state) = [''workflow-3'']
   \<and> map createdAt (workflows undated_state) = [[]]
   \<and> map wf_id (workflows (fst (saveWorkflow ''Draft'' [] [] [] (JNum (Finite 1))
         ''2025-02-02T00:00:00.000Z'' 7 undated_state))) = [''workflow-3'']
   \<and> map createdAt (workflows (fst (saveWorkflow ''Draft'' [] [] [] (JNum (Finite 1))
         ''2025-02-02T00:00:00.000Z'' 7 undated_state))) = [''2025-02-02T00:00:00.000Z'']"
  by (simp add: saveWorkflow_state undated_state_def undated_workflow_def new_workflow_def
      or_else_def upsert_workflow_def)

section \<open>Properties of the condition node\<close>

lemma edge_condition_connect:
  "edge_condition (connect_edge lc ns answer conn)
     = (case edge_label lc (source_is_if ns conn) answer of None \<Rightarrow> JUndefined | Some l \<Rightarrow> JStr l)"
  by (simp add: edge_condition_def connect_edge_def prop_of_def get_prop_def Let_def
      split: option.splits)

lemma source_is_if_port:
  "source_is_if ns (conn\<lparr> sourceHandle := h \<rparr>) = source_is_if ns conn"
  by (simp add: source_is_if_def)

lemma source_handles_if: "source_handles ''logic.if'' = [''0'', ''1'']"
proof -
  have "[0..<2] = [0, Suc 0]" by (simp add: upt_rec)
  moreover have "decimal 0 = ''0''" "decimal (Suc 0) = ''1''"
    by (simp_all add: decimal.simps digit_def)
  ultimately show ?thesis
    by (simp add: source_handles_def node_outputs_def)
qed

lemma find_map_nodes:
  "find (\<lambda>w. wf_id w = wid) (map (\<lambda>w. w\<lparr> nodes := f w, edges := g w \<rparr>) ws)
     = map_option (\<lambda>w. w\<lparr> nodes := f w, edges := g w \<rparr>) (find (\<lambda>w. wf_id w = wid) ws)"
  by (induction ws) simp_all

lemma runWorkflow_runs_independent:
  "workflowRuns (runWorkflow wid ms now now'
      (s\<lparr> workflows := map (\<lambda>w. w\<lparr> nodes := f w, edges := g w \<rparr>) (workflows s) \<rparr>))
   = workflowRuns (runWorkflow wid ms now now' s)"
  by (cases "find (\<lambda>w. wf_id w = wid) (workflows s)")
     (simp_all add: runWorkflow_def runWorkflow_start_def find_map_nodes Let_def
        runWorkflow_finish_eq new_run_def)

text \<open>
  C3 as amended. A \<^verbatim>\<open>logic.if\<close> node has the two source handles \<^verbatim>\<open>0\<close> and
  \<^verbatim>\<open>1\<close>. Nothing in the code evaluates a condition, activates an edge or marks a node
  skipped. An edge drawn from a \<^verbatim>\<open>logic.if\<close> node carries the condition
  \<^verbatim>\<open>true\<close> or \<^verbatim>\<open>false\<close> when that is what the user typed at the prompt, up to
  surrounding white space and case, and no condition for any other answer or any other
  source node; the condition does not depend on the port the edge leaves from. The runs that
  \<^verbatim>\<open>runWorkflow\<close> records do not depend on the nodes and edges of the workflows.
\<close>

theorem if_edge_labels:
  "source_handles ''logic.if'' = [''0'', ''1'']
   \<and> edge_condition (connect_edge toLowerCase ns answer conn)
       = (if source_is_if ns conn \<and> answer \<noteq> None \<and> toLowerCase (trim (the answer)) = str_true
          then JStr ''true''
          else if source_is_if ns conn \<and> answer \<noteq> None \<and> toLowerCase (trim (the answer)) = str_false
          then JStr ''false''
          else JUndefined)
   \<and> edge_condition (connect_edge toLowerCase ns answer (conn\<lparr> sourceHandle := h \<rparr>))
       = edge_condition (connect_edge toLowerCase ns answer conn)
   \<and> workflowRuns (runWorkflow wid ms now now'
         (s\<lparr> workflows := map (\<lambda>w. w\<lparr> nodes := f w, edges := g w \<rparr>) (workflows s) \<rparr>))
       = workflowRuns (runWorkflow wid ms now now' s)"
proof -
  have "edge_condition (connect_edge toLowerCase ns answer conn)
       = (if source_is_if ns conn \<and> answer \<noteq> None \<and> toLowerCase (trim (the answer)) = str_true
          then JStr ''true''
          else if source_is_if ns conn \<and> answer \<noteq> None \<and> toLowerCase (trim (the answer)) = str_false
          then JStr ''false''
          else JUndefined)"
    by (auto simp: edge_condition_connect edge_label_def split: option.splits)
  moreover have "edge_condition (connect_edge toLowerCase ns answer (conn\<lparr> sourceHandle := h \<rparr>))
       = edge_condition (connect_edge toLowerCase ns answer conn)"
    by (simp add: edge_condition_connect source_is_if_port)
  ultimately show ?thesis
    using source_handles_if runWorkflow_runs_independent by blast
qed

lemma if_source [simp]: "source_is_if if_edges_nodes (port_connection ''2'' p t)"
  by (simp add: source_is_if_def if_edges_nodes_def port_connection_def prop_of_def get_prop_def
      string_or_null_def)

lemma not_if_source [simp]: "\<not> source_is_if if_edges_nodes (port_connection ''3'' p t)"
  by (simp add: source_is_if_def if_edges_nodes_def port_connection_def prop_of_def get_prop_def
      string_or_null_def)

lemma answers:
  "ascii_lower (trim answer_False) = str_false"
  "ascii_lower (trim answer_maybe) \<noteq> str_true"
  "ascii_lower (trim answer_maybe) \<noteq> str_false"
  "ascii_lower (trim answer_true) = str_true"
  "ascii_lower (trim answer_nbsp_true) = str_true"
  "ascii_lower (trim answer_TRUE_spaced) = str_true"
  "ascii_lower (trim answer_false) = str_false"
  "str_true \<noteq> str_false" "str_false \<noteq> str_true"
  by (simp_all add: ascii_lower_def trim_def is_space_def str_true_def str_false_def
      answer_False_def answer_maybe_def answer_true_def answer_nbsp_true_def
      answer_TRUE_spaced_def answer_false_def)

theorem if_edge_labels_witness:
  "edge_condition (connect_edge ascii_lower if_edges_nodes (Some answer_False)
                     (port_connection ''2'' ''1'' ''4'')) = JStr ''false''
   \<and> edge_condition (connect_edge ascii_lower if_edges_nodes (Some answer_nbsp_true)
                       (port_connection ''2'' ''1'' ''4'')) = JStr ''true''
   \<and> edge_condition (connect_edge ascii_lower if_edges_nodes (Some answer_maybe)
                       (port_connection ''2'' ''1'' ''4'')) = JUndefined
   \<and> edge_condition (connect_edge ascii_lower if_edges_nodes (Some answer_true)
                       (port_connection ''3'' ''0'' ''4'')) = JUndefined"
  using if_edge_labels [of ascii_lower if_edges_nodes "Some answer_False" "port_connection ''2'' ''1'' ''4''"]
    if_edge_labels [of ascii_lower if_edges_nodes "Some answer_nbsp_true" "port_connection ''2'' ''1'' ''4''"]
    if_edge_labels [of ascii_lower if_edges_nodes "Some answer_maybe" "port_connection ''2'' ''1'' ''4''"]
    if_edge_labels [of ascii_lower if_edges_nodes "Some answer_true" "port_connection ''3'' ''0'' ''4''"]
  by (simp add: answers)

text \<open>
  C3 as stated fails. The edges drawn from port \<^verbatim>\<open>0\<close> and from port \<^verbatim>\<open>1\<close> of
  the same condition node can both carry the condition \<^verbatim>\<open>true\<close>, and the edge from
  port \<^verbatim>\<open>1\<close> can as well carry \<^verbatim>\<open>false\<close>, so the port does not select the
  branch. And the run of the workflow with a condition and one action on each side records
  the same four log lines as any run: no entry marks a node skipped.
\<close>

theorem if_branch_counterexample:
  "edge_condition (connect_edge ascii_lower if_edges_nodes (Some answer_true)
                     (port_connection ''2'' ''0'' ''3'')) = JStr ''true''
   \<and> edge_condition (connect_edge ascii_lower if_edges_nodes (Some answer_TRUE_spaced)
                       (port_connection ''2'' ''1'' ''4'')) = JStr ''true''
   \<and> edge_condition (connect_edge ascii_lower if_edges_nodes (Some answer_false)
                       (port_connection ''2'' ''1'' ''4'')) = JStr ''false''
   \<and> logs (last (workflowRuns (runWorkflow ''workflow-1'' 5 ''t'' ''u'' example_state)))
     = [''Starting workflow: Notify'', ''Executing nodes in sequence...'',
        ''All nodes completed successfully'', ''Workflow execution finished'']
   \<and> \<not> list_ex (sublist ''skipped'')
         (logs (last (workflowRuns (runWorkflow ''workflow-1'' 5 ''t'' ''u'' example_state))))"
proof -
  have 1: "edge_condition (connect_edge ascii_lower if_edges_nodes (Some answer_true)
                     (port_connection ''2'' ''0'' ''3'')) = JStr ''true''"
    and 2: "edge_condition (connect_edge ascii_lower if_edges_nodes (Some answer_TRUE_spaced)
                       (port_connection ''2'' ''1'' ''4'')) = JStr ''true''"
    and 3: "edge_condition (connect_edge ascii_lower if_edges_nodes (Some answer_false)
                       (port_connection ''2'' ''1'' ''4'')) = JStr ''false''"
    by (simp_all add: edge_condition_connect edge_label_def answers)
  have 4: "logs (last (workflowRuns (runWorkflow ''workflow-1'' 5 ''t'' ''u'' example_state)))
     = [''Starting workflow: Notify'', ''Executing nodes in sequence...'',
        ''All nodes completed successfully'', ''Workflow execution finished'']"
    by (simp add: runWorkflow_def runWorkflow_start_present [OF example_find_1]
        runWorkflow_finish_eq replace_run_def completedRun_def)
  have 5: "\<not> list_ex (sublist ''skipped'')
         [''Starting workflow: Notify'', ''Executing nodes in sequence...'',
          ''All nodes completed successfully'', ''Workflow execution finished'']"
    by (simp add: sublist_Cons_right)
  from 1 2 3 4 5 show ?thesis by simp
qed

section \<open>Properties of the JSON round trip\<close>

lemma put_prop_fresh: "k \<notin> fst ` set ps \<Longrightarrow> put_prop k v ps = ps @ [(k, v)]"
  by (induction ps) auto

lemma put_prop_keys:
  "map fst (put_prop k v ps) = (if k \<in> fst ` set ps then map fst ps else map fst ps @ [k])"
  by (induction ps) auto

lemma put_prop_values: "snd ` set (put_prop k v ps) \<subseteq> insert v (snd ` set ps)"
  by (induction ps) auto

lemma foldl_put_fresh:
  "distinct (map fst (acc @ kvs)) \<Longrightarrow>
   foldl (\<lambda>acc kv. put_prop (fst kv) (snd kv) acc) acc kvs = acc @ kvs"
proof (induction kvs arbitrary: acc)
  case Nil
  then show ?case by simp
next
  case (Cons kv kvs)
  from Cons.prems have "fst kv \<notin> fst ` set acc" by auto
  then have "put_prop (fst kv) (snd kv) acc = acc @ [kv]" by (simp add: put_prop_fresh)
  moreover from Cons.prems have "distinct (map fst ((acc @ [kv]) @ kvs))" by simp
  ultimately show ?case using Cons.IH [of "acc @ [kv]"] by simp
qed

lemma last_wins_distinct: "distinct (map fst kvs) \<Longrightarrow> last_wins kvs = kvs"
  using foldl_put_fresh [of "[]" kvs] by (simp add: last_wins_def)

lemma foldl_put_keys:
  "distinct (map fst acc) \<Longrightarrow>
   distinct (map fst (foldl (\<lambda>acc kv. put_prop (fst kv) (snd kv) acc) acc kvs))"
  by (induction kvs arbitrary: acc) (simp_all add: put_prop_keys)

lemma last_wins_keys: "distinct (map fst (last_wins kvs))"
  by (simp add: last_wins_def foldl_put_keys)

lemma foldl_put_values:
  "snd ` set (foldl (\<lambda>acc kv. put_prop (fst kv) (snd kv) acc) acc kvs)
     \<subseteq> snd ` set acc \<union> snd ` set kvs"
proof (induction kvs arbitrary: acc)
  case Nil
  then show ?case by simp
next
  case (Cons kv kvs)
  from Cons.IH [of "put_prop (fst kv) (snd kv) acc"] put_prop_values [of "fst kv" "snd kv" acc]
  show ?case by auto
qed

lemma last_wins_values: "snd ` set (last_wins kvs) \<subseteq> snd ` set kvs"
  using foldl_put_values [of "[]" kvs] by (simp add: last_wins_def)

lemma finite_num_roundtrip: "finite_num n \<Longrightarrow> JSON_parse (stringify_num n) = JNum n"
  by (cases n) simp_all

lemma json_exact_roundtrip:
  "json_exact v \<Longrightarrow> \<exists>j. JSON_stringify v = Some j \<and> JSON_parse j = omit_undefined v"
proof (induction v)
  case (JArr xs)
  then have "\<forall>x\<in>set xs. JSON_parse (array_element (JSON_stringify x)) = omit_undefined x"
    by (fastforce simp: list_all_iff array_element_def)
  then show ?case by (simp add: comp_def)
next
  case (JObj kvs)
  then have *: "\<forall>kv\<in>set kvs. snd kv = JUndefined \<or>
                  (\<exists>j. JSON_stringify (snd kv) = Some j \<and> JSON_parse j = omit_undefined (snd kv))"
    by (fastforce simp: list_all_iff snds.simps)
  have ne: "\<And>x j. JSON_stringify x = Some j \<Longrightarrow> x \<noteq> JUndefined" by auto
  from * have m: "map (\<lambda>kv. (fst kv, JSON_parse (snd kv)))
               (concat (map (\<lambda>kv. object_property (fst kv) (JSON_stringify (snd kv))) kvs))
             = map (\<lambda>kv. (fst kv, omit_undefined (snd kv))) (filter (\<lambda>kv. snd kv \<noteq> JUndefined) kvs)"
    by (induction kvs) (auto simp: object_property_def)
  from JObj.prems have "distinct (map fst (filter (\<lambda>kv. snd kv \<noteq> JUndefined) kvs))"
    by (simp add: distinct_map_filter)
  then have "distinct (map fst (map (\<lambda>kv. (fst kv, omit_undefined (snd kv)))
                (filter (\<lambda>kv. snd kv \<noteq> JUndefined) kvs)))"
    by (simp add: comp_def)
  from last_wins_distinct [OF this] m show ?case by simp
qed (simp_all add: finite_num_roundtrip)

lemma reread_exact: "json_exact v \<Longrightarrow> reread v = omit_undefined v"
  using json_exact_roundtrip [of v] by (auto simp: reread_def array_element_def)

lemma parse_not_undefined [simp]: "JSON_parse j \<noteq> JUndefined" "JUndefined \<noteq> JSON_parse j"
  by (cases j; simp)+

lemma parse_exact: "json_exact (JSON_parse j)"
proof (induction j)
  case (JsObj kvs)
  have "snd ` set (last_wins (map (\<lambda>kv. (fst kv, JSON_parse (snd kv))) kvs))
          \<subseteq> snd ` set (map (\<lambda>kv. (fst kv, JSON_parse (snd kv))) kvs)"
    by (rule last_wins_values)
  with JsObj show ?case
    by (fastforce simp: list_all_iff last_wins_keys snds.simps)
qed (simp_all add: list_all_iff)

lemma parse_omit: "omit_undefined (JSON_parse j) = JSON_parse j"
proof (induction j)
  case (JsArr xs)
  then show ?case by (simp add: map_idI)
next
  case (JsObj kvs)
  let ?l = "last_wins (map (\<lambda>kv. (fst kv, JSON_parse (snd kv))) kvs)"
  have s: "snd ` set ?l \<subseteq> snd ` set (map (\<lambda>kv. (fst kv, JSON_parse (snd kv))) kvs)"
    by (rule last_wins_values)
  then have v: "\<forall>kv\<in>set ?l. \<exists>p\<in>set kvs. snd kv = JSON_parse (snd p)" by fastforce
  then have 1: "filter (\<lambda>kv. snd kv \<noteq> JUndefined) ?l = ?l"
    by (fastforce simp: filter_id_conv)
  from v JsObj have "\<forall>kv\<in>set ?l. omit_undefined (snd kv) = snd kv"
    by (fastforce simp: snds.simps)
  then have 2: "map (\<lambda>kv. (fst kv, omit_undefined (snd kv))) ?l = ?l"
    by (auto intro!: map_idI)
  from 1 2 show ?case by simp
qed simp_all

lemma reread_parse [simp]: "reread (JSON_parse j) = JSON_parse j"
  using reread_exact [OF parse_exact, of j] by (simp add: parse_omit)

lemma read_write_saved: "read_saved (write_saved xs st) = Inr (JArr (map reread xs))"
  by (simp add: read_saved_def write_saved_def setItem_json_def reread_def comp_def)

lemma local_round_trip:
  assumes "list_all json_exact ns" "list_all json_exact es"
  shows "loadLocal (saveLocal ns es st) = Some (JArr (map omit_undefined ns), JArr (map omit_undefined es))"
proof -
  have "json_exact (JObj [(''nodes'', JArr ns), (''edges'', JArr es)])"
    using assms by simp
  from json_exact_roundtrip [OF this] obtain j where
    j: "JSON_stringify (JObj [(''nodes'', JArr ns), (''edges'', JArr es)]) = Some j"
       "JSON_parse j = omit_undefined (JObj [(''nodes'', JArr ns), (''edges'', JArr es)])"
    by blast
  then show ?thesis
    by (simp add: loadLocal_def saveLocal_def setItem_json_def get_prop_def nullish_or_def)
qed

lemma reread_list: "list_all json_exact xs \<Longrightarrow> map reread xs = map omit_undefined xs"
  by (simp add: list_all_iff reread_exact)

lemma reread_workflow:
  "reread (workflow_to_js w)
   = JObj ([(''id'', JStr (wf_id w)), (''name'', JStr (name w)),
            (''description'', JStr (description w)), (''nodes'', JArr (map reread (nodes w))),
            (''edges'', JArr (map reread (edges w)))]
           @ (case JSON_stringify (outputs w) of None \<Rightarrow> [] | Some j \<Rightarrow> [(''outputs'', JSON_parse j)])
           @ [(''createdAt'', JStr (createdAt w)), (''updatedAt'', JStr (updatedAt w))])"
proof (cases "JSON_stringify (outputs w)")
  case None
  then show ?thesis
    by (simp add: reread_def workflow_to_js_def array_element_def object_property_def
        last_wins_def comp_def)
next
  case (Some j)
  then show ?thesis
    by (simp add: reread_def workflow_to_js_def array_element_def object_property_def
        last_wins_def comp_def)
qed

lemma reread_workflow_id [simp]:
  "get_prop (reread (workflow_to_js w)) ''id'' = Inr (JStr (wf_id w))"
  by (simp add: reread_workflow get_prop_def)

lemma as_workflow_reread:
  "as_workflow (reread (workflow_to_js w))
   = Some (w\<lparr> nodes := map reread (nodes w), edges := map reread (edges w),
              outputs := reread_property (outputs w) \<rparr>)"
  by (cases "JSON_stringify (outputs w)")
     (simp_all add: reread_workflow as_workflow_def prop_of_def get_prop_def reread_property_def)

lemma findIndex_id_update:
  "findIndex_id i xs = Inr (Some k) \<Longrightarrow> get_prop w ''id'' = Inr (JStr i) \<Longrightarrow>
   k < length xs \<and> findIndex_id i (xs[k := w]) = Inr (Some k)"
proof (induction xs arbitrary: k)
  case Nil
  then show ?case by simp
next
  case (Cons x xs)
  then show ?case
    by (cases k) (auto split: sum.splits if_splits option.splits)
qed

lemma findIndex_id_append:
  "findIndex_id i xs = Inr None \<Longrightarrow> get_prop w ''id'' = Inr (JStr i) \<Longrightarrow>
   findIndex_id i (xs @ [w]) = Inr (Some (length xs))"
  by (induction xs) (auto split: sum.splits if_splits option.splits)

lemma read_saved_reread: "read_saved st = Inr (JArr xs) \<Longrightarrow> map reread xs = xs"
proof -
  assume a: "read_saved st = Inr (JArr xs)"
  have "\<exists>j. JSON_parse j = JArr xs"
  proof (cases "st ''workflows''")
    case None
    with a have "xs = []" by (simp add: read_saved_def)
    then have "JSON_parse (JsArr []) = JArr xs" by simp
    then show ?thesis ..
  next
    case (Some it)
    show ?thesis
    proof (cases it)
      case (JsonText j)
      with a Some have "JSON_parse j = JArr xs" by (simp add: read_saved_def)
      then show ?thesis ..
    next
      case (OtherText t)
      with a Some have "xs = []" by (auto simp: read_saved_def split: if_splits)
      then have "JSON_parse (JsArr []) = JArr xs" by simp
      then show ?thesis ..
    qed
  qed
  then obtain j where j: "JSON_parse j = JArr xs" ..
  then obtain js where js: "j = JsArr js" by (cases j) simp_all
  with j have "xs = map JSON_parse js" by simp
  then show ?thesis by (simp add: comp_def)
qed

lemma persist_then_find:
  assumes "persist_workflow w st = Inr st'"
  shows "\<exists>xs k. read_saved st' = Inr (JArr xs) \<and> findIndex_id (wf_id w) xs = Inr (Some k)
                \<and> xs ! k = reread (workflow_to_js w)"
proof -
  from assms(1) obtain ys where ys: "read_saved st = Inr (JArr ys)"
    by (auto simp: persist_workflow_def split: sum.splits jsval.splits)
  then have sy: "map reread ys = ys" by (rule read_saved_reread)
  show ?thesis
  proof (cases "findIndex_id (wf_id w) ys")
    case (Inl e)
    with assms(1) ys show ?thesis by (simp add: persist_workflow_def)
  next
    case (Inr r)
    show ?thesis
    proof (cases r)
      case None
      with Inr assms(1) ys have st': "st' = write_saved (ys @ [workflow_to_js w]) st"
        by (simp add: persist_workflow_def)
      have "read_saved st' = Inr (JArr (ys @ [reread (workflow_to_js w)]))"
        unfolding st' read_write_saved using sy by simp
      with findIndex_id_append [of "wf_id w" ys "reread (workflow_to_js w)"] Inr None
      show ?thesis by (auto simp: nth_append)
    next
      case (Some k)
      with Inr assms(1) ys have st': "st' = write_saved (ys[k := workflow_to_js w]) st"
        by (simp add: persist_workflow_def)
      from Inr Some findIndex_id_update [of "wf_id w" ys k "reread (workflow_to_js w)"]
      have k: "k < length ys"
        "findIndex_id (wf_id w) (ys[k := reread (workflow_to_js w)]) = Inr (Some k)"
        by simp_all
      have "read_saved st' = Inr (JArr (ys[k := reread (workflow_to_js w)]))"
        unfolding st' read_write_saved using sy by (simp add: map_update)
      with k show ?thesis by auto
    qed
  qed
qed

lemma upsert_has_id: "wf_id w \<in> wf_id ` set (upsert_workflow w ws)"
proof (cases "wf_id w \<in> wf_id ` set ws")
  case True
  then have "map wf_id (upsert_workflow w ws) = map wf_id ws"
    by (simp add: upsert_map)
  then have "set (map wf_id (upsert_workflow w ws)) = set (map wf_id ws)" by simp
  with True show ?thesis by simp
next
  case False
  then show ?thesis by (simp add: upsert_append)
qed

lemma provider_round_trip:
  assumes "list_all json_exact ns" "list_all json_exact es"
    and "snd (saveWorkflow nm descr ns es outs now ms s) = None"
  shows "loadWorkflow (wf_id (new_workflow (currentWorkflow s) nm descr ns es outs now ms))
           (fst (saveWorkflow nm descr ns es outs now ms s))
         = ((fst (saveWorkflow nm descr ns es outs now ms s))
              \<lparr> currentWorkflow := Some ((new_workflow (currentWorkflow s) nm descr ns es outs now ms)
                   \<lparr> nodes := map omit_undefined ns, edges := map omit_undefined es,
                     outputs := reread_property outs \<rparr>) \<rparr>,
            Found ((new_workflow (currentWorkflow s) nm descr ns es outs now ms)
                   \<lparr> nodes := map omit_undefined ns, edges := map omit_undefined es,
                     outputs := reread_property outs \<rparr>))"
proof -
  let ?w = "new_workflow (currentWorkflow s) nm descr ns es outs now ms"
  let ?s1 = "s\<lparr> workflows := upsert_workflow ?w (workflows s), currentWorkflow := Some ?w \<rparr>"
  from assms(3) obtain st' where p: "persist_workflow ?w (localStorage s) = Inr st'"
    and s': "fst (saveWorkflow nm descr ns es outs now ms s) = ?s1\<lparr> localStorage := st' \<rparr>"
    by (auto simp: saveWorkflow_def Let_def split: sum.splits)
  have f: "nodes ?w = ns" "edges ?w = es" "outputs ?w = outs"
    by (simp_all add: new_workflow_def)
  from persist_then_find [OF p] obtain xs k where
    xs: "read_saved st' = Inr (JArr xs)" "findIndex_id (wf_id ?w) xs = Inr (Some k)"
        "xs ! k = reread (workflow_to_js ?w)"
    by blast
  from find_id_Some [OF upsert_has_id [of ?w "workflows s"]]
  obtain e where "find (\<lambda>x. wf_id x = wf_id ?w) (upsert_workflow ?w (workflows s)) = Some e"
    by blast
  with xs show ?thesis
    unfolding s'
    by (simp add: loadWorkflow_def as_workflow_reread f reread_list [OF assms(1)]
        reread_list [OF assms(2)])
qed

text \<open>
  C5 as amended. Let the nodes and the edges hold no \<^verbatim>\<open>NaN\<close>, no infinity and no
  function, and \<^verbatim>\<open>undefined\<close> only as the value of a property of an object. Then
  \<^verbatim>\<open>loadLocal\<close> after \<^verbatim>\<open>saveLocal\<close> returns the nodes and the edges without the
  properties whose value is \<^verbatim>\<open>undefined\<close>; \<^verbatim>\<open>loadWorkflow\<close> after a
  \<^verbatim>\<open>saveWorkflow\<close> that did not throw returns the workflow that was saved, with the
  same id, name, description and dates, with its nodes and its edges without the properties
  whose value is \<^verbatim>\<open>undefined\<close>, and with the \<^verbatim>\<open>outputs\<close> that JSON carried,
  whatever the \<^verbatim>\<open>outputs\<close> were.
\<close>

theorem workflow_round_trip:
  assumes "list_all json_exact ns" and "list_all json_exact es"
  shows "loadLocal (saveLocal ns es st)
           = Some (JArr (map omit_undefined ns), JArr (map omit_undefined es))
         \<and> (snd (saveWorkflow nm descr ns es outs now ms s) = None \<longrightarrow>
              snd (loadWorkflow (wf_id (new_workflow (currentWorkflow s) nm descr ns es outs now ms))
                     (fst (saveWorkflow nm descr ns es outs now ms s)))
              = Found ((new_workflow (currentWorkflow s) nm descr ns es outs now ms)
                         \<lparr> nodes := map omit_undefined ns, edges := map omit_undefined es,
                           outputs := reread_property outs \<rparr>))"
proof -
  have 1: "loadLocal (saveLocal ns es st)
             = Some (JArr (map omit_undefined ns), JArr (map omit_undefined es))"
    using assms by (rule local_round_trip)
  have 2: "snd (saveWorkflow nm descr ns es outs now ms s) = None \<Longrightarrow>
           snd (loadWorkflow (wf_id (new_workflow (currentWorkflow s) nm descr ns es outs now ms))
                  (fst (saveWorkflow nm descr ns es outs now ms s)))
           = Found ((new_workflow (currentWorkflow s) nm descr ns es outs now ms)
                      \<lparr> nodes := map omit_undefined ns, edges := map omit_undefined es,
                        outputs := reread_property outs \<rparr>)"
    using provider_round_trip [OF assms, of nm descr outs now ms s] by simp
  from 1 2 show ?thesis by blast
qed

lemma if_edges_nodes_exact: "list_all json_exact if_edges_nodes"
  by (simp add: if_edges_nodes_def)

lemma port_connection_simps [simp]:
  "source (port_connection s p t) = Some s" "target (port_connection s p t) = Some t"
  "sourceHandle (port_connection s p t) = Some p" "targetHandle (port_connection s p t) = None"
  by (simp_all add: port_connection_def)

lemma canvas_edges_exact: "list_all json_exact canvas_edges"
  by (simp add: canvas_edges_def connect_edge_def Let_def string_or_null_def
      split: option.splits)

lemma if_edges_nodes_omit: "map omit_undefined if_edges_nodes = if_edges_nodes"
  by (simp add: if_edges_nodes_def)

lemma canvas_edges_omit: "map omit_undefined canvas_edges = reread_edges"
  by (simp add: canvas_edges_def reread_edges_def connect_edge_def Let_def string_or_null_def
      edge_label_def answers)

lemma example_nodes_exact:
  "list_all json_exact (nodes branching_workflow)" "list_all json_exact (edges branching_workflow)"
  by (simp_all add: branching_workflow_def example_node_def example_edge_def)

lemma example_nodes_omit:
  "map omit_undefined (nodes branching_workflow) = nodes branching_workflow"
  "map omit_undefined (edges branching_workflow) = edges branching_workflow"
  by (simp_all add: branching_workflow_def example_node_def example_edge_def)

lemma example_save_ok:
  "snd (saveWorkflow ''Notify'' ''d'' (nodes branching_workflow) (edges branching_workflow)
          (JNum NaN) ''2025-02-02T00:00:00.000Z'' 5 example_state) = None"
  by (simp add: saveWorkflow_def Let_def persist_workflow_def read_saved_def example_state_def)

theorem workflow_round_trip_witness:
  "loadLocal (saveLocal if_edges_nodes canvas_edges Map.empty)
     = Some (JArr if_edges_nodes, JArr reread_edges)
   \<and> snd (loadWorkflow ''workflow-1''
        (fst (saveWorkflow ''Notify'' ''d'' (nodes branching_workflow) (edges branching_workflow)
                (JNum NaN) ''2025-02-02T00:00:00.000Z'' 5 example_state)))
     = Found \<lparr> wf_id = ''workflow-1'', name = ''Notify'', description = ''d'',
               nodes = nodes branching_workflow, edges = edges branching_workflow,
               outputs = JNull, createdAt = ''2025-01-01T00:00:00.000Z'',
               updatedAt = ''2025-02-02T00:00:00.000Z'' \<rparr>"
proof -
  have w: "new_workflow (currentWorkflow example_state) ''Notify'' ''d'' (nodes branching_workflow)
             (edges branching_workflow) (JNum NaN) ''2025-02-02T00:00:00.000Z'' 5
           = \<lparr> wf_id = ''workflow-1'', name = ''Notify'', description = ''d'',
               nodes = nodes branching_workflow, edges = edges branching_workflow,
               outputs = JNum NaN, createdAt = ''2025-01-01T00:00:00.000Z'',
               updatedAt = ''2025-02-02T00:00:00.000Z'' \<rparr>"
    by (simp add: new_workflow_def or_else_def example_state_def branching_workflow_def)
  have id: "wf_id (new_workflow (currentWorkflow example_state) ''Notify'' ''d''
             (nodes branching_workflow) (edges branching_workflow) (JNum NaN)
             ''2025-02-02T00:00:00.000Z'' 5) = ''workflow-1''"
    unfolding w by simp
  have r: "reread_property (JNum NaN) = JNull"
    by (simp add: reread_property_def)
  from workflow_round_trip [OF if_edges_nodes_exact canvas_edges_exact, of Map.empty]
  have a: "loadLocal (saveLocal if_edges_nodes canvas_edges Map.empty)
             = Some (JArr if_edges_nodes, JArr reread_edges)"
    by (simp only: if_edges_nodes_omit canvas_edges_omit)
  from workflow_round_trip [OF example_nodes_exact, where nm = "''Notify''" and descr = "''d''"
      and outs = "JNum NaN" and now = "''2025-02-02T00:00:00.000Z''" and ms = 5
      and s = example_state] example_save_ok
  have d: "snd (loadWorkflow ''workflow-1''
        (fst (saveWorkflow ''Notify'' ''d'' (nodes branching_workflow) (edges branching_workflow)
                (JNum NaN) ''2025-02-02T00:00:00.000Z'' 5 example_state)))
     = Found \<lparr> wf_id = ''workflow-1'', name = ''Notify'', description = ''d'',
               nodes = nodes branching_workflow, edges = edges branching_workflow,
               outputs = JNull, createdAt = ''2025-01-01T00:00:00.000Z'',
               updatedAt = ''2025-02-02T00:00:00.000Z'' \<rparr>"
    unfolding id by (simp add: w r example_nodes_omit)
  from a d show ?thesis by simp
qed

text \<open>
  C5 as stated fails. A node whose configuration holds \<^verbatim>\<open>NaN\<close> comes back from
  \<^verbatim>\<open>loadWorkflow\<close> with \<^verbatim>\<open>null\<close> in its place. And the edges that
  \<^verbatim>\<open>onConnect\<close> builds come back from \<^verbatim>\<open>loadLocal\<close> as other objects: the edge
  drawn from an action node has lost its \<^verbatim>\<open>data\<close> and \<^verbatim>\<open>label\<close> properties.
  An infinity, and an \<^verbatim>\<open>undefined\<close> or a function inside an array, come back as
  \<^verbatim>\<open>null\<close> as well.
\<close>

theorem workflow_round_trip_counterexample:
  "snd (loadWorkflow ''workflow-5''
        (fst (saveWorkflow ''Ask'' [] [llm_node (JNum NaN)] [] (JNum (Finite 1))
                ''2025-02-02T00:00:00.000Z'' 5 (provider (mounted [] Map.empty)))))
     = Found \<lparr> wf_id = ''workflow-5'', name = ''Ask'', description = [],
               nodes = [llm_node JNull], edges = [],
               outputs = JNum (Finite 1), createdAt = ''2025-02-02T00:00:00.000Z'',
               updatedAt = ''2025-02-02T00:00:00.000Z'' \<rparr>
   \<and> llm_node (JNum NaN) \<noteq> llm_node JNull
   \<and> loadLocal (saveLocal if_edges_nodes canvas_edges Map.empty)
       = Some (JArr if_edges_nodes, JArr reread_edges)
   \<and> reread_edges \<noteq> canvas_edges
   \<and> loadLocal (saveLocal [llm_node (JNum PosInfinity), llm_node (JArr [JUndefined]),
                              llm_node (JArr [JFun])] [] Map.empty)
       = Some (JArr [llm_node JNull, llm_node (JArr [JNull]), llm_node (JArr [JNull])], JArr [])"
proof -
  have 0: "loadLocal (saveLocal [llm_node (JNum PosInfinity), llm_node (JArr [JUndefined]),
                                 llm_node (JArr [JFun])] [] Map.empty)
       = Some (JArr [llm_node JNull, llm_node (JArr [JNull]), llm_node (JArr [JNull])], JArr [])"
    by (simp add: loadLocal_def saveLocal_def setItem_json_def llm_node_def get_prop_def
        nullish_or_def array_element_def object_property_def last_wins_def)
  have 1: "loadLocal (saveLocal if_edges_nodes canvas_edges Map.empty)
             = Some (JArr if_edges_nodes, JArr reread_edges)"
    using local_round_trip [OF if_edges_nodes_exact canvas_edges_exact, of Map.empty]
    by (simp only: if_edges_nodes_omit canvas_edges_omit)
  have 2: "llm_node (JNum NaN) \<noteq> llm_node JNull"
    by (simp add: llm_node_def)
  have 3: "fst (saveWorkflow ''Ask'' [] [llm_node (JNum NaN)] [] (JNum (Finite 1))
                ''2025-02-02T00:00:00.000Z'' 5 (provider (mounted [] Map.empty)))
           = \<lparr> currentWorkflow = Some \<lparr> wf_id = ''workflow-5'', name = ''Ask'', description = [],
                   nodes = [llm_node (JNum NaN)], edges = [],
                   outputs = JNum (Finite 1), createdAt = ''2025-02-02T00:00:00.000Z'',
                   updatedAt = ''2025-02-02T00:00:00.000Z'' \<rparr>,
               workflows = [\<lparr> wf_id = ''workflow-5'', name = ''Ask'', description = [],
                   nodes = [llm_node (JNum NaN)], edges = [],
                   outputs = JNum (Finite 1), createdAt = ''2025-02-02T00:00:00.000Z'',
                   updatedAt = ''2025-02-02T00:00:00.000Z'' \<rparr>],
               workflowRuns = [], isRunning = False,
               localStorage = write_saved [workflow_to_js \<lparr> wf_id = ''workflow-5'', name = ''Ask'',
                   description = [], nodes = [llm_node (JNum NaN)], edges = [],
                   outputs = JNum (Finite 1), createdAt = ''2025-02-02T00:00:00.000Z'',
                   updatedAt = ''2025-02-02T00:00:00.000Z'' \<rparr>] Map.empty \<rparr>"
    by (simp add: saveWorkflow_def Let_def mounted_def new_workflow_def or_else_def
        upsert_workflow_def persist_workflow_def read_saved_def)
  have 4: "reread (llm_node (JNum NaN)) = llm_node JNull"
    by (simp add: reread_def llm_node_def array_element_def object_property_def last_wins_def)
  have 5: "reread_edges \<noteq> canvas_edges"
    by (simp add: reread_edges_def canvas_edges_def connect_edge_def Let_def)
  have 6: "reread_property (JNum (Finite 1)) = JNum (Finite 1)"
    by (simp add: reread_property_def)
  have 7: "snd (loadWorkflow ''workflow-5''
        (fst (saveWorkflow ''Ask'' [] [llm_node (JNum NaN)] [] (JNum (Finite 1))
                ''2025-02-02T00:00:00.000Z'' 5 (provider (mounted [] Map.empty)))))
     = Found \<lparr> wf_id = ''workflow-5'', name = ''Ask'', description = [],
               nodes = [llm_node JNull], edges = [],
               outputs = JNum (Finite 1), createdAt = ''2025-02-02T00:00:00.000Z'',
               updatedAt = ''2025-02-02T00:00:00.000Z'' \<rparr>"
    unfolding 3
    by (simp add: loadWorkflow_def read_write_saved as_workflow_reread 4 6)
  from 0 1 2 5 7 show ?thesis by simp
qed

section \<open>Properties of the specified validator\<close>

lemma successors_arrows: "m \<in> set (successors es n) \<longleftrightarrow> (n, m) \<in> arrows es"
  by (auto simp: successors_def arrows_def)


lemma avoiding_mono: "S \<subseteq> T \<Longrightarrow> avoiding es T \<subseteq> avoiding es S"
  by (auto simp: avoiding_def)

lemma avoiding_last:
  assumes "(a, x) \<in> (avoiding es S)\<^sup>*"
  shows "(a, x) \<in> (avoiding es (insert n S))\<^sup>*
         \<or> (\<exists>m. (n, m) \<in> avoiding es S \<and> (m, x) \<in> (avoiding es (insert n S))\<^sup>*)"
  using assms
proof (induction rule: converse_rtrancl_induct)
  case base
  then show ?case by simp
next
  case (step a b)
  show ?case
  proof (cases "\<exists>m. (n, m) \<in> avoiding es S \<and> (m, x) \<in> (avoiding es (insert n S))\<^sup>*")
    case True
    then show ?thesis by simp
  next
    case False
    with step.IH have b: "(b, x) \<in> (avoiding es (insert n S))\<^sup>*" by simp
    show ?thesis
    proof (cases "a = n")
      case True
      with step.hyps(1) b show ?thesis by blast
    next
      case False
      with step.hyps(1) have "(a, b) \<in> avoiding es (insert n S)"
        by (simp add: avoiding_def)
      with b show ?thesis by (blast intro: converse_rtrancl_into_rtrancl)
    qed
  qed
qed

lemma avoiding_first:
  assumes "(n, x) \<in> (avoiding es S)\<^sup>*" and "n \<noteq> x"
  shows "n \<notin> S \<and> (\<exists>m. (n, m) \<in> arrows es \<and> (m, x) \<in> (avoiding es (insert n S))\<^sup>*)"
proof -
  from assms obtain k where k: "(n, k) \<in> avoiding es S"
    by (auto elim: converse_rtranclE)
  then have ns: "n \<notin> S" by (simp add: avoiding_def)
  have "\<not> (n, x) \<in> (avoiding es (insert n S))\<^sup>*"
  proof
    assume "(n, x) \<in> (avoiding es (insert n S))\<^sup>*"
    with assms(2) obtain k' where "(n, k') \<in> avoiding es (insert n S)"
      by (auto elim: converse_rtranclE)
    then show False by (simp add: avoiding_def)
  qed
  with avoiding_last [OF assms(1), of n]
  obtain m where "(n, m) \<in> avoiding es S" "(m, x) \<in> (avoiding es (insert n S))\<^sup>*"
    by blast
  with ns show ?thesis by (auto simp: avoiding_def)
qed

lemma reaches_iff: "reaches es stack n x \<longleftrightarrow> (n, x) \<in> (avoiding es (set stack))\<^sup>*"
proof (induction es stack n x rule: reaches.induct)
  case (1 es stack n x)
  show ?case
  proof (cases "n = x")
    case True
    then show ?thesis by (simp add: reaches.simps [of es stack x x])
  next
    case False
    show ?thesis
    proof (cases "n \<in> set stack")
      case True
      with False have "\<not> reaches es stack n x"
        by (simp add: reaches.simps [of es stack n x])
      moreover from avoiding_first [of n x es "set stack"] False True
      have "(n, x) \<notin> (avoiding es (set stack))\<^sup>*" by blast
      ultimately show ?thesis by simp
    next
      case ns: False
      have step: "reaches es stack n x \<longleftrightarrow>
          (\<exists>m. (n, m) \<in> arrows es \<and> (m, x) \<in> (avoiding es (set (n # stack)))\<^sup>*)"
        using False ns "1.IH" [OF False ns]
        by (auto simp: reaches.simps [of es stack n x] list_ex_iff successors_arrows)
      show ?thesis
      proof
        assume "reaches es stack n x"
        with step obtain m where m: "(n, m) \<in> arrows es"
          "(m, x) \<in> (avoiding es (set (n # stack)))\<^sup>*"
          by blast
        from m(1) ns have "(n, m) \<in> avoiding es (set stack)" by (simp add: avoiding_def)
        moreover from m(2) avoiding_mono [of "set stack" "set (n # stack)" es]
        have "(m, x) \<in> (avoiding es (set stack))\<^sup>*"
          by (auto intro: rtrancl_mono [THEN subsetD])
        ultimately show "(n, x) \<in> (avoiding es (set stack))\<^sup>*"
          by (rule converse_rtrancl_into_rtrancl)
      next
        assume "(n, x) \<in> (avoiding es (set stack))\<^sup>*"
        from avoiding_first [OF this False] step show "reaches es stack n x" by auto
      qed
    qed
  qed
qed

lemma avoiding_empty [simp]: "avoiding es {} = arrows es"
  by (auto simp: avoiding_def)

lemma reaches_start: "reaches es [] n x \<longleftrightarrow> (n, x) \<in> (arrows es)\<^sup>*"
  by (simp add: reaches_iff)


text \<open>
  As the reachability check is worded, no node fails it: a node other than the trigger that
  is reachable from the trigger is the target of an edge.
\<close>

lemma rtrancl_inbound: "(a, b) \<in> r\<^sup>* \<Longrightarrow> a \<noteq> b \<Longrightarrow> b \<in> snd ` r"
proof (erule rtranclE)
  assume "a \<noteq> b" and "a = b"
  then show ?thesis by simp
next
  fix y
  assume "(y, b) \<in> r"
  then have "snd (y, b) \<in> snd ` r" by (rule imageI)
  then show ?thesis by simp
qed

lemma unreachable_nodes_none: "unreachable_nodes t w = []"
proof -
  have "\<And>n. n \<in> set (nodes w) \<Longrightarrow> prop_of n ''id'' \<noteq> JStr t \<Longrightarrow>
           reaches (edges w) [] (JStr t) (prop_of n ''id'') \<Longrightarrow>
           prop_of n ''id'' \<in> set (map (\<lambda>e. prop_of e ''target'') (edges w))"
  proof -
    fix n
    assume "prop_of n ''id'' \<noteq> JStr t" and "reaches (edges w) [] (JStr t) (prop_of n ''id'')"
    then have "(JStr t, prop_of n ''id'') \<in> (arrows (edges w))\<^sup>*" "JStr t \<noteq> prop_of n ''id''"
      by (simp_all add: reaches_start)
    then have "prop_of n ''id'' \<in> snd ` arrows (edges w)" by (rule rtrancl_inbound)
    then show "prop_of n ''id'' \<in> set (map (\<lambda>e. prop_of e ''target'') (edges w))"
      by (simp add: arrows_def image_image)
  qed
  then show ?thesis
    unfolding unreachable_nodes_def filter_empty_conv by blast
qed









end
